theory Spec2Isabelle
  imports Complex_Main
begin

section \<open>Python strings\<close>

text \<open>
  A Python \<open>str\<close> is a sequence of Unicode code points. The bullet glyph of the source,
  U+2022, is one character of a Python string, so a string is modelled as a list of
  code points and not as a list of bytes.
\<close>

type_synonym pystr = "nat list"

definition str :: "string \<Rightarrow> pystr" where
  "str s = map of_char s"

text \<open>
  The characters \<open>str.strip\<close>, \<open>str.lstrip\<close> and \<open>str.rstrip\<close> remove when called with no
  argument (CPython's \<open>_PyUnicode_IsWhitespace\<close>).
\<close>

definition is_space :: "nat \<Rightarrow> bool" where
  "is_space c \<longleftrightarrow>
     (9 \<le> c \<and> c \<le> 13) \<or> (28 \<le> c \<and> c \<le> 32) \<or> c = 133 \<or> c = 160 \<or> c = 5760 \<or>
     (8192 \<le> c \<and> c \<le> 8202) \<or> c = 8232 \<or> c = 8233 \<or> c = 8239 \<or> c = 8287 \<or> c = 12288"

text \<open>The line boundaries of \<open>str.splitlines\<close> (CPython's \<open>_PyUnicode_IsLinebreak\<close>).\<close>

definition is_linebreak :: "nat \<Rightarrow> bool" where
  "is_linebreak c \<longleftrightarrow>
     (10 \<le> c \<and> c \<le> 13) \<or> (28 \<le> c \<and> c \<le> 30) \<or> c = 133 \<or> c = 8232 \<or> c = 8233"

definition lstrip :: "pystr \<Rightarrow> pystr" where
  "lstrip s = dropWhile is_space s"

definition rstrip :: "pystr \<Rightarrow> pystr" where
  "rstrip s = rev (dropWhile is_space (rev s))"

definition strip :: "pystr \<Rightarrow> pystr" where
  "strip s = lstrip (rstrip s)"

definition startswith :: "pystr \<Rightarrow> pystr \<Rightarrow> bool" where
  "startswith s p \<longleftrightarrow> take (length p) s = p"

text \<open>
  \<open>str.splitlines()\<close>: each line runs up to the next line boundary, which is dropped; a
  carriage return directly followed by a line feed is one boundary; no empty line is
  added after a boundary that ends the text.
\<close>

function splitlines :: "pystr \<Rightarrow> pystr list" where
  "splitlines [] = []"
| "splitlines (c # s) =
     (let line = takeWhile (\<lambda>x. \<not> is_linebreak x) (c # s);
          rest = dropWhile (\<lambda>x. \<not> is_linebreak x) (c # s)
      in case rest of
           [] \<Rightarrow> [line]
         | b # r \<Rightarrow>
             line # splitlines (if b = 13 \<and> startswith r [10] then drop 1 r else r))"
  by pat_completeness auto
termination
proof (relation "measure length")
  fix c :: nat and s line rest :: pystr and b r
  assume "rest = dropWhile (\<lambda>x. \<not> is_linebreak x) (c # s)" and "rest = b # r"
  then have "length (b # r) \<le> length (c # s)"
    using length_dropWhile_le [of "\<lambda>x. \<not> is_linebreak x" "c # s"] by simp
  then have "length r < length (c # s)" and "length (drop 1 r) < length (c # s)"
    by simp_all
  then show "(if b = 13 \<and> startswith r [10] then drop 1 r else r, c # s) \<in> measure length"
    by simp
qed simp

section \<open>ReportLab flowables, as the source builds them\<close>

text \<open>
  A style is either an entry of the style sheet used as it is, or a
  \<open>ParagraphStyle(name, parent=..., attribute=value, ...)\<close> derived from one. The
  entries of the sheet are ReportLab's; their type is the parameter \<open>'b\<close>.
\<close>

datatype 'b para_style =
    Sheet 'b
  | ParagraphStyle string 'b "(string \<times> nat) list"

text \<open>A paragraph that has been constructed: the text and the style it was given.\<close>

datatype 'b para = Paragraph pystr "'b para_style"

text \<open>\<open>ListItem(paragraph, leftIndent=n)\<close>.\<close>

datatype 'b list_item = ListItem "'b para" nat

text \<open>
  \<open>Spacer(width, height)\<close>, a paragraph, and
  \<open>ListFlowable(items, bulletType=..., start=..., leftIndent=...)\<close>.
\<close>

datatype 'b flowable =
    Spacer nat nat
  | Para "'b para"
  | ListFlowable "'b list_item list" string pystr nat

text \<open>The exceptions, with their messages.\<close>

datatype error = KeyError string | ValueError string | IndexError string | OSError string

type_synonym 'b stylesheet = "string \<rightharpoonup> 'b"

text \<open>
  \<open>Paragraph(text, style)\<close> is ReportLab's: the constructor parses the text as markup
  and raises when it cannot (\<open>ValueError\<close> on a tag that is opened and never closed,
  for one). The source calls it on text that comes from the input, so the constructor is
  a parameter of every function that calls it: \<open>init text style\<close> is the exception the
  call raises, and \<open>None\<close> when it returns the paragraph.
\<close>

type_synonym 'b paragraph_init = "pystr \<Rightarrow> 'b para_style \<Rightarrow> error option"

section \<open>\<open>markdown_to_flowables\<close>\<close>

definition bullet_glyph :: pystr where
  "bullet_glyph = [8226]"

text \<open>\<open>s.startswith(("-", "*", bullet glyph))\<close>.\<close>

definition startswith_bullet :: "pystr \<Rightarrow> bool" where
  "startswith_bullet s \<longleftrightarrow>
     startswith s (str ''-'') \<or> startswith s (str ''*'') \<or> startswith s bullet_glyph"

text \<open>
  The inner \<open>while\<close> loop, on the lines from index \<open>i\<close> on: the exception of the first
  \<open>Paragraph\<close> call that raises, or the items it appends and the lines left when it
  stops.
\<close>

fun items_loop ::
  "'b paragraph_init \<Rightarrow> 'b para_style \<Rightarrow> pystr list \<Rightarrow> error + 'b list_item list \<times> pystr list" where
  "items_loop init body [] = Inr ([], [])"
| "items_loop init body (l # ls) =
     (if startswith_bullet (lstrip l) then
        (let bullet_text = strip (drop 1 (lstrip l)) in
         case init bullet_text body of
           Some e \<Rightarrow> Inl e
         | None \<Rightarrow>
             (case items_loop init body ls of
                Inl e \<Rightarrow> Inl e
              | Inr (items, rest) \<Rightarrow>
                  Inr (ListItem (Paragraph bullet_text body) 12 # items, rest)))
      else Inr ([], l # ls))"

lemma items_loop_length:
  "items_loop init body ls = Inr (items, rest) \<Longrightarrow> length rest \<le> length ls"
proof (induction ls arbitrary: items rest)
  case Nil
  then show ?case by simp
next
  case (Cons l ls)
  show ?case
  proof (cases "startswith_bullet (lstrip l)")
    case False
    with Cons.prems show ?thesis by simp
  next
    case True
    with Cons.prems obtain items' where "items_loop init body ls = Inr (items', rest)"
      by (auto simp: Let_def split: option.splits sum.splits)
    from Cons.IH [OF this] show ?thesis by simp
  qed
qed

lemma lstrip_rstrip_bullet:
  assumes "startswith_bullet (lstrip (rstrip l))"
  shows "startswith_bullet (lstrip l)"
proof -
  have l: "l = rstrip l @ rev (takeWhile is_space (rev l))"
    unfolding rstrip_def
    by (metis rev_append rev_rev_ident takeWhile_dropWhile_id)
  from assms obtain c t where ct: "lstrip (rstrip l) = c # t" and c: "c = 45 \<or> c = 42 \<or> c = 8226"
    by (cases "lstrip (rstrip l)")
      (auto simp: startswith_bullet_def startswith_def str_def bullet_glyph_def)
  from c have ns: "\<not> is_space c" by (auto simp: is_space_def)
  from ct have "rstrip l = takeWhile is_space (rstrip l) @ c # t"
    unfolding lstrip_def by (metis takeWhile_dropWhile_id)
  then have "l = takeWhile is_space (rstrip l) @ c # (t @ rev (takeWhile is_space (rev l)))"
    using l by (metis append_Cons append_assoc)
  then have "lstrip l = c # (t @ rev (takeWhile is_space (rev l)))"
    unfolding lstrip_def using ns
    by (metis dropWhile_append3 dropWhile_eq_Nil_conv dropWhile_append2 set_takeWhileD
        dropWhile.simps(2) self_append_conv2 dropWhile_append1)
  with c show ?thesis
    by (auto simp: startswith_bullet_def startswith_def str_def bullet_glyph_def)
qed

lemma items_loop_consumes:
  assumes "items_loop init body (l # ls) = Inr (items, rest)"
    and "startswith_bullet (lstrip (rstrip l))"
  shows "length rest < Suc (length ls)"
proof -
  from assms(2) have "startswith_bullet (lstrip l)" by (rule lstrip_rstrip_bullet)
  with assms(1) obtain items' where "items_loop init body ls = Inr (items', rest)"
    by (auto simp: Let_def split: option.splits sum.splits)
  then show ?thesis
    using items_loop_length [of init body ls items' rest] by simp
qed

text \<open>
  \<open>flow.append(x)\<close> and then the rest of the loop: the flowables appended from here on,
  unless the rest of the loop raises.
\<close>

definition appended :: "'b flowable list \<Rightarrow> error + 'b flowable list \<Rightarrow> error + 'b flowable list" where
  "appended xs r = (case r of Inl e \<Rightarrow> Inl e | Inr flow \<Rightarrow> Inr (xs @ flow))"

text \<open>
  The outer \<open>while\<close> loop, on the lines from index \<open>i\<close> on, with the three styles the
  function has set up: the exception of the first \<open>Paragraph\<close> call that raises, or the
  flowables appended to \<open>flow\<close>.
\<close>

function flow_loop ::
  "'b paragraph_init \<Rightarrow> 'b para_style \<Rightarrow> 'b para_style \<Rightarrow> 'b para_style \<Rightarrow> pystr list \<Rightarrow>
     error + 'b flowable list" where
  "flow_loop init body h2 h3 [] = Inr []"
| "flow_loop init body h2 h3 (l # ls) =
     (let line = rstrip l in
      if strip line = [] then appended [Spacer 1 6] (flow_loop init body h2 h3 ls)
      else if startswith line (str ''## '') then
        (case init (strip (drop 3 line)) h2 of
           Some e \<Rightarrow> Inl e
         | None \<Rightarrow>
             appended [Para (Paragraph (strip (drop 3 line)) h2)] (flow_loop init body h2 h3 ls))
      else if startswith line (str ''### '') then
        (case init (strip (drop 4 line)) h3 of
           Some e \<Rightarrow> Inl e
         | None \<Rightarrow>
             appended [Para (Paragraph (strip (drop 4 line)) h3)] (flow_loop init body h2 h3 ls))
      else if startswith_bullet (lstrip line) then
        (case items_loop init body (l # ls) of
           Inl e \<Rightarrow> Inl e
         | Inr (items, rest) \<Rightarrow>
             appended [ListFlowable items ''bullet'' bullet_glyph 6, Spacer 1 4]
               (flow_loop init body h2 h3 rest))
      else
        (case init line body of
           Some e \<Rightarrow> Inl e
         | None \<Rightarrow> appended [Para (Paragraph line body)] (flow_loop init body h2 h3 ls)))"
  by pat_completeness auto
termination
  by (relation "measure (\<lambda>(init, body, h2, h3, ls). length ls)")
    (auto simp del: items_loop.simps dest: items_loop_consumes)

text \<open>
  The function itself: the three look-ups in the style sheet (a missing key raises
  \<open>KeyError\<close>), the two derived heading styles, then the loop over the lines.
\<close>

definition H2 :: "'b \<Rightarrow> 'b para_style" where
  "H2 parent = ParagraphStyle ''H2'' parent [(''spaceBefore'', 12), (''spaceAfter'', 6)]"

definition H3 :: "'b \<Rightarrow> 'b para_style" where
  "H3 parent = ParagraphStyle ''H3'' parent [(''spaceBefore'', 8), (''spaceAfter'', 4)]"

definition markdown_to_flowables ::
  "'b paragraph_init \<Rightarrow> pystr \<Rightarrow> 'b stylesheet \<Rightarrow> error + 'b flowable list" where
  "markdown_to_flowables init md_text styles =
     (case styles ''BodyText'' of
        None \<Rightarrow> Inl (KeyError ''BodyText'')
      | Some body \<Rightarrow>
          (case styles ''Heading2'' of
             None \<Rightarrow> Inl (KeyError ''Heading2'')
           | Some p2 \<Rightarrow>
               (case styles ''Heading3'' of
                  None \<Rightarrow> Inl (KeyError ''Heading3'')
                | Some p3 \<Rightarrow>
                    flow_loop init (Sheet body) (H2 p2) (H3 p3) (splitlines md_text))))"

section \<open>\<open>write_pdf\<close>\<close>

text \<open>
  \<open>SimpleDocTemplate(filename, pagesize=LETTER, leftMargin=0.5 * inch, ...)\<close>: the
  constructor only records its arguments. Lengths are in points, as rationals.
\<close>

record doc_template =
  doc_filename :: string
  doc_pagesize :: "rat \<times> rat"
  doc_leftMargin :: rat
  doc_rightMargin :: rat
  doc_topMargin :: rat
  doc_bottomMargin :: rat
  doc_title :: string
  doc_author :: string

definition inch :: rat where
  "inch = 72"

definition LETTER :: "rat \<times> rat" where
  "LETTER = (17 / 2 * inch, 11 * inch)"

definition SimpleDocTemplate :: "string \<Rightarrow> doc_template" where
  "SimpleDocTemplate filename =
     \<lparr>doc_filename = filename, doc_pagesize = LETTER,
      doc_leftMargin = 1 / 2 * inch, doc_rightMargin = 1 / 2 * inch,
      doc_topMargin = 7 / 10 * inch, doc_bottomMargin = 7 / 10 * inch,
      doc_title = ''Travel Plan'', doc_author = ''Travel Guide''\<rparr>"

text \<open>
  \<open>write_pdf\<close> depends on four things outside the repository, which are parameters
  here: \<open>init\<close>, the constructor of \<open>Paragraph\<close>; \<open>styles\<close>, the sheet
  \<open>getSampleStyleSheet()\<close> returns; \<open>now\<close>, the text
  \<open>datetime.now().strftime('%Y-%m-%d %H:%M')\<close> returns; and \<open>build\<close>, ReportLab's
  \<open>doc.build(story)\<close>, which works on the file system \<open>'fs\<close>: it returns the exception it
  raised, if any, and the file system it left.

  The function returns the exception it raised or the file name, and the file system.
  Nothing before \<open>doc.build\<close> touches the file system.
\<close>

definition write_pdf ::
  "(doc_template \<Rightarrow> 'b flowable list \<Rightarrow> 'fs \<Rightarrow> error option \<times> 'fs) \<Rightarrow> 'b paragraph_init \<Rightarrow>
     'b stylesheet \<Rightarrow> pystr \<Rightarrow> pystr \<Rightarrow> string \<Rightarrow> 'fs \<Rightarrow> (error + string) \<times> 'fs" where
  "write_pdf build init styles now markdown_text filename fs =
     (let doc = SimpleDocTemplate filename in
      case styles ''Title'' of
        None \<Rightarrow> (Inl (KeyError ''Title''), fs)
      | Some title \<Rightarrow>
          (let header = ParagraphStyle ''Header'' title [(''fontSize'', 18), (''spaceAfter'', 12)]
           in case init (str ''Travel Plan'') header of
                Some e \<Rightarrow> (Inl e, fs)
              | None \<Rightarrow>
                  (let story = [Para (Paragraph (str ''Travel Plan'') header)];
                       meta = str ''Generated: '' @ now
                   in case styles ''Normal'' of
                        None \<Rightarrow> (Inl (KeyError ''Normal''), fs)
                      | Some normal \<Rightarrow>
                          (case init meta (Sheet normal) of
                             Some e \<Rightarrow> (Inl e, fs)
                           | None \<Rightarrow>
                               (let story = story @ [Para (Paragraph meta (Sheet normal))];
                                    story = story @ [Spacer 1 10]
                                in case markdown_to_flowables init markdown_text styles of
                                     Inl e \<Rightarrow> (Inl e, fs)
                                   | Inr flow \<Rightarrow>
                                       (let story = story @ flow
                                        in case build doc story fs of
                                             (Some e, fs') \<Rightarrow> (Inl e, fs')
                                           | (None, fs') \<Rightarrow> (Inr filename, fs')))))))"

section \<open>The vocabulary of the specification\<close>

text \<open>
  The kinds of line the loop tells apart, as predicates on a line of the input: the
  conditions are those of the source, taken on the line itself.
\<close>

definition blank_line :: "pystr \<Rightarrow> bool" where
  "blank_line l \<longleftrightarrow> strip l = []"

definition heading2_line :: "pystr \<Rightarrow> bool" where
  "heading2_line l \<longleftrightarrow> startswith (rstrip l) (str ''## '')"

definition heading3_line :: "pystr \<Rightarrow> bool" where
  "heading3_line l \<longleftrightarrow> startswith (rstrip l) (str ''### '')"

definition bullet_line :: "pystr \<Rightarrow> bool" where
  "bullet_line l \<longleftrightarrow> startswith_bullet (lstrip l)"

definition plain_line :: "pystr \<Rightarrow> bool" where
  "plain_line l \<longleftrightarrow>
     \<not> blank_line l \<and> \<not> heading2_line l \<and> \<not> heading3_line l \<and> \<not> bullet_line l"

definition item_of :: "'b para_style \<Rightarrow> pystr \<Rightarrow> 'b list_item" where
  "item_of body l = ListItem (Paragraph (strip (drop 1 (lstrip l))) body) 12"

definition list_of :: "'b para_style \<Rightarrow> pystr list \<Rightarrow> 'b flowable" where
  "list_of body run = ListFlowable (map (item_of body) run) ''bullet'' bullet_glyph 6"

text \<open>The texts a flowable carries, and the list items and paragraphs of a flowable.\<close>

fun texts :: "'b flowable \<Rightarrow> pystr list" where
  "texts (Spacer w h) = []"
| "texts (Para (Paragraph t s)) = [t]"
| "texts (ListFlowable items bt st li) = map (\<lambda>i. case i of ListItem (Paragraph t s) n \<Rightarrow> t) items"

fun items_of :: "'b flowable \<Rightarrow> 'b list_item list" where
  "items_of (ListFlowable items bt st li) = items"
| "items_of (Spacer w h) = []"
| "items_of (Para p) = []"

fun paras :: "'b flowable \<Rightarrow> 'b para list" where
  "paras (Para p) = [p]"
| "paras (Spacer w h) = []"
| "paras (ListFlowable items bt st li) = []"

text \<open>
  The one call of \<open>Paragraph\<close> the loop makes for a line that is not blank: the text it
  passes (\<open>line[3:].strip()\<close>, \<open>line[4:].strip()\<close>, \<open>lines[i].lstrip()[1:].strip()\<close> or
  \<open>line\<close>, where \<open>line\<close> is the line without its trailing whitespace) and the style.
\<close>

definition para_text :: "pystr \<Rightarrow> pystr" where
  "para_text l =
     (if heading2_line l then strip (drop 3 (rstrip l))
      else if heading3_line l then strip (drop 4 (rstrip l))
      else if bullet_line l then strip (drop 1 (lstrip l))
      else rstrip l)"

definition line_style :: "'b para_style \<Rightarrow> 'b para_style \<Rightarrow> 'b para_style \<Rightarrow> pystr \<Rightarrow> 'b para_style" where
  "line_style body h2 h3 l =
     (if heading2_line l then h2 else if heading3_line l then h3 else body)"

text \<open>
  The constructor returns on every line: no call of \<open>Paragraph\<close> that the loop makes on
  these lines raises.
\<close>

definition accepted ::
  "'b paragraph_init \<Rightarrow> 'b para_style \<Rightarrow> 'b para_style \<Rightarrow> 'b para_style \<Rightarrow> pystr list \<Rightarrow> bool" where
  "accepted init body h2 h3 ls \<longleftrightarrow>
     (\<forall>l\<in>set ls. \<not> blank_line l \<longrightarrow> init (para_text l) (line_style body h2 h3 l) = None)"

text \<open>The exception of the first line, in the order of the lines, whose call raises.\<close>

fun first_error ::
  "'b paragraph_init \<Rightarrow> 'b para_style \<Rightarrow> 'b para_style \<Rightarrow> 'b para_style \<Rightarrow> pystr list \<Rightarrow>
     error option" where
  "first_error init body h2 h3 [] = None"
| "first_error init body h2 h3 (l # ls) =
     (if blank_line l then first_error init body h2 h3 ls
      else case init (para_text l) (line_style body h2 h3 l) of
             Some e \<Rightarrow> Some e
           | None \<Rightarrow> first_error init body h2 h3 ls)"

text \<open>
  The text of a line in the words of the specification: the remainder of a heading line
  after the marker and its space, the bullet line without its marker and the whitespace
  around what follows, and any other line as it is (trailing whitespace is trimmed
  before the lines are classified).
\<close>

definition spec_text :: "pystr \<Rightarrow> pystr" where
  "spec_text l =
     (if heading2_line l then drop 3 (rstrip l)
      else if heading3_line l then drop 4 (rstrip l)
      else if bullet_line l then strip (drop 1 (lstrip l))
      else rstrip l)"

text \<open>The paragraph the loop appends for a line that is neither blank nor a bullet line.\<close>

definition para_of :: "'b para_style \<Rightarrow> 'b para_style \<Rightarrow> 'b para_style \<Rightarrow> pystr \<Rightarrow> 'b para" where
  "para_of body h2 h3 l =
     (if heading2_line l then Paragraph (strip (drop 3 (rstrip l))) h2
      else if heading3_line l then Paragraph (strip (drop 4 (rstrip l))) h3
      else Paragraph (rstrip l) body)"

text \<open>
  For the examples: a style sheet with the five entries the source looks up, which
  ReportLab's sample sheet has (the numbers stand for ReportLab's style objects), and a
  constructor that raises \<open>ValueError\<close> on a text that has the tag \<open><b>\<close> in it and no
  \<open>/\<close>, so that the tag is never closed, as ReportLab's does on \<open><b>x\<close>, and returns on
  a text that has no markup in it. The examples call it on such texts only.
\<close>

definition sheet5 :: "nat stylesheet" where
  "sheet5 = [''Title'' \<mapsto> 0, ''Normal'' \<mapsto> 1, ''BodyText'' \<mapsto> 2, ''Heading2'' \<mapsto> 3,
     ''Heading3'' \<mapsto> 4]"

fun contains :: "pystr \<Rightarrow> pystr \<Rightarrow> bool" where
  "contains [] p \<longleftrightarrow> p = []"
| "contains (c # s) p \<longleftrightarrow> startswith (c # s) p \<or> contains s p"

definition markup :: "'b paragraph_init" where
  "markup text style =
     (if contains text (str ''<b>'') \<and> 47 \<notin> set text then Some (ValueError ''Parse error'')
      else None)"

text \<open>
  Two \<open>doc.build\<close> for the examples, on a file system that maps the name of a file to
  the flowables written to it: one that writes the story to the destination, and one
  whose write fails after it has opened the destination, which leaves the file empty (a
  full disk).
\<close>

definition complete_build ::
  "doc_template \<Rightarrow> 'b flowable list \<Rightarrow> (string \<rightharpoonup> 'b flowable list) \<Rightarrow>
     error option \<times> (string \<rightharpoonup> 'b flowable list)" where
  "complete_build doc story fs = (None, fs(doc_filename doc \<mapsto> story))"


section \<open>The loops when no constructor raises\<close>

text \<open>
  What the two loops append when every call of \<open>Paragraph\<close> returns: the same loops
  without the exceptions. They serve the proofs; the claims are stated on the functions
  of the source.
\<close>

fun items_data :: "'b para_style \<Rightarrow> pystr list \<Rightarrow> 'b list_item list \<times> pystr list" where
  "items_data body [] = ([], [])"
| "items_data body (l # ls) =
     (if startswith_bullet (lstrip l) then
        (let bullet_text = strip (drop 1 (lstrip l));
             (items, rest) = items_data body ls
         in (ListItem (Paragraph bullet_text body) 12 # items, rest))
      else ([], l # ls))"

lemma items_data_length: "length (snd (items_data body ls)) \<le> length ls"
  by (induction ls) (auto split: prod.splits)

lemma items_data_consumes:
  assumes "(items, rest) = items_data body (l # ls)"
    and "startswith_bullet (lstrip (rstrip l))"
  shows "length rest < Suc (length ls)"
proof -
  from assms(2) have "startswith_bullet (lstrip l)" by (rule lstrip_rstrip_bullet)
  with assms(1) have "rest = snd (items_data body ls)"
    by (auto split: prod.splits)
  then show ?thesis
    using items_data_length [of body ls] by simp
qed

function flow_data ::
  "'b para_style \<Rightarrow> 'b para_style \<Rightarrow> 'b para_style \<Rightarrow> pystr list \<Rightarrow> 'b flowable list" where
  "flow_data body h2 h3 [] = []"
| "flow_data body h2 h3 (l # ls) =
     (let line = rstrip l in
      if strip line = [] then Spacer 1 6 # flow_data body h2 h3 ls
      else if startswith line (str ''## '') then
        Para (Paragraph (strip (drop 3 line)) h2) # flow_data body h2 h3 ls
      else if startswith line (str ''### '') then
        Para (Paragraph (strip (drop 4 line)) h3) # flow_data body h2 h3 ls
      else if startswith_bullet (lstrip line) then
        (case items_data body (l # ls) of (items, rest) \<Rightarrow>
           ListFlowable items ''bullet'' bullet_glyph 6 # Spacer 1 4 # flow_data body h2 h3 rest)
      else Para (Paragraph line body) # flow_data body h2 h3 ls)"
  by pat_completeness auto
termination
  by (relation "measure (\<lambda>(body, h2, h3, ls). length ls)")
    (auto simp del: items_data.simps dest: items_data_consumes)

section \<open>Lemmas on strings and on the two loops\<close>

lemma rstrip_idem: "rstrip (rstrip l) = rstrip l"
  by (simp add: rstrip_def dropWhile_idem)

lemma strip_rstrip: "strip (rstrip l) = strip l"
  by (simp add: strip_def rstrip_idem)

lemma not_space_bullet: "c = 45 \<or> c = 42 \<or> c = 8226 \<Longrightarrow> \<not> is_space c"
  by (auto simp: is_space_def)

lemma startswith_bullet_iff:
  "startswith_bullet s \<longleftrightarrow> (\<exists>c t. s = c # t \<and> (c = 45 \<or> c = 42 \<or> c = 8226))"
  by (cases s) (auto simp: startswith_bullet_def startswith_def str_def bullet_glyph_def)

lemma rstrip_append_nonspace:
  "\<not> is_space c \<Longrightarrow> rstrip (ws @ c # t) = ws @ c # rstrip t"
  by (simp add: rstrip_def dropWhile_append)

lemma lstrip_decomp: "l = takeWhile is_space l @ lstrip l"
  by (simp add: lstrip_def)

lemma lstrip_append_nonspace:
  "\<forall>x\<in>set ws. is_space x \<Longrightarrow> \<not> is_space c \<Longrightarrow> lstrip (ws @ c # t) = c # t"
  by (simp add: lstrip_def dropWhile_append)

lemma bullet_rstrip_iff:
  "startswith_bullet (lstrip (rstrip l)) \<longleftrightarrow> startswith_bullet (lstrip l)"
proof
  assume "startswith_bullet (lstrip (rstrip l))"
  then show "startswith_bullet (lstrip l)" by (rule lstrip_rstrip_bullet)
next
  assume "startswith_bullet (lstrip l)"
  then obtain c t where ct: "lstrip l = c # t" and c: "c = 45 \<or> c = 42 \<or> c = 8226"
    by (auto simp: startswith_bullet_iff)
  from c have ns: "\<not> is_space c" by (rule not_space_bullet)
  have l: "l = takeWhile is_space l @ c # t"
    using lstrip_decomp [of l] ct by simp
  have "rstrip l = takeWhile is_space l @ c # rstrip t"
    using rstrip_append_nonspace [OF ns, of "takeWhile is_space l" t] l by simp
  moreover have "lstrip (takeWhile is_space l @ c # rstrip t) = c # rstrip t"
  proof (rule lstrip_append_nonspace)
    show "\<forall>x\<in>set (takeWhile is_space l). is_space x"
      by (blast dest: set_takeWhileD)
  qed (rule ns)
  ultimately have "lstrip (rstrip l) = c # rstrip t"
    by (simp only:)
  with c show "startswith_bullet (lstrip (rstrip l))"
    by (auto simp: startswith_bullet_iff)
qed

lemma bullet_not_blank: "startswith_bullet (lstrip l) \<Longrightarrow> strip l \<noteq> []"
  using bullet_rstrip_iff [of l] by (auto simp: strip_def startswith_bullet_iff)

lemma rstrip_Cons_hd: "rstrip l = c # t \<Longrightarrow> \<exists>t'. l = c # t'"
proof -
  assume a: "rstrip l = c # t"
  have "l = rstrip l @ rev (takeWhile is_space (rev l))"
    unfolding rstrip_def by (metis rev_append rev_rev_ident takeWhile_dropWhile_id)
  with a show ?thesis by (metis append_Cons)
qed

lemma hash_not_bullet:
  assumes "startswith (rstrip l) (35 # p)"
  shows "\<not> startswith_bullet (lstrip l)"
proof -
  from assms obtain t where "rstrip l = 35 # t"
    by (cases "rstrip l") (auto simp: startswith_def)
  then obtain t' where "l = 35 # t'" using rstrip_Cons_hd by blast
  then have "lstrip l = 35 # t'" by (simp add: lstrip_def is_space_def)
  then show ?thesis by (simp add: startswith_bullet_iff)
qed

lemma str_h2: "str ''## '' = [35, 35, 32]" by (simp add: str_def)
lemma str_h3: "str ''### '' = [35, 35, 35, 32]" by (simp add: str_def)


lemma heading2_not_blank: "heading2_line l \<Longrightarrow> \<not> blank_line l"
proof -
  assume "heading2_line l"
  then obtain t where t: "rstrip l = 35 # t"
    by (cases "rstrip l") (auto simp: heading2_line_def startswith_def str_def)
  have "strip l = lstrip (rstrip l)" by (simp add: strip_def)
  also have "\<dots> = 35 # t" using t by (simp add: lstrip_def is_space_def)
  finally show ?thesis by (simp add: blank_line_def)
qed

lemma heading3_not_blank: "heading3_line l \<Longrightarrow> \<not> blank_line l"
proof -
  assume "heading3_line l"
  then obtain t where t: "rstrip l = 35 # t"
    by (cases "rstrip l") (auto simp: heading3_line_def startswith_def str_def)
  have "strip l = lstrip (rstrip l)" by (simp add: strip_def)
  also have "\<dots> = 35 # t" using t by (simp add: lstrip_def is_space_def)
  finally show ?thesis by (simp add: blank_line_def)
qed

lemma startswith_Nil: "startswith s []"
  by (simp add: startswith_def)

lemma startswith_Cons:
  "startswith s (c # p) \<longleftrightarrow> (\<exists>t. s = c # t \<and> startswith t p)"
  by (cases s) (auto simp: startswith_def)

lemma heading3_not_heading2: "heading3_line l \<Longrightarrow> \<not> heading2_line l"
  unfolding heading3_line_def heading2_line_def str_h2 str_h3
  by (auto simp: startswith_Cons)

lemma heading2_not_bullet: "heading2_line l \<Longrightarrow> \<not> bullet_line l"
  unfolding heading2_line_def bullet_line_def str_h2 by (rule hash_not_bullet)

lemma heading3_not_bullet: "heading3_line l \<Longrightarrow> \<not> bullet_line l"
  unfolding heading3_line_def bullet_line_def str_h3 by (rule hash_not_bullet)

lemma bullet_line_not_blank: "bullet_line l \<Longrightarrow> \<not> blank_line l"
  by (simp add: bullet_line_def blank_line_def bullet_not_blank)



lemma items_data_eq:
  "items_data body ls = (map (item_of body) (takeWhile bullet_line ls), dropWhile bullet_line ls)"
  by (induction ls) (simp_all add: bullet_line_def item_of_def)

lemma flow_data_Cons:
  "flow_data body h2 h3 (l # ls) =
     (if blank_line l then Spacer 1 6 # flow_data body h2 h3 ls
      else if heading2_line l then
        Para (Paragraph (strip (drop 3 (rstrip l))) h2) # flow_data body h2 h3 ls
      else if heading3_line l then
        Para (Paragraph (strip (drop 4 (rstrip l))) h3) # flow_data body h2 h3 ls
      else if bullet_line l then
        list_of body (l # takeWhile bullet_line ls) # Spacer 1 4 #
          flow_data body h2 h3 (dropWhile bullet_line ls)
      else Para (Paragraph (rstrip l) body) # flow_data body h2 h3 ls)"
proof -
  have b: "items_data body (l # ls) =
      (map (item_of body) (takeWhile bullet_line (l # ls)), dropWhile bullet_line (l # ls))"
    by (rule items_data_eq)
  show ?thesis
    unfolding flow_data.simps Let_def strip_rstrip bullet_rstrip_iff b
      blank_line_def heading2_line_def heading3_line_def list_of_def
    by (simp add: bullet_line_def)
qed


declare flow_data.simps(2) [simp del]

lemma lines_induct [case_names Nil blank heading2 heading3 bullets plain]:
  assumes "P []"
    and "\<And>l ls. blank_line l \<Longrightarrow> P ls \<Longrightarrow> P (l # ls)"
    and "\<And>l ls. heading2_line l \<Longrightarrow> P ls \<Longrightarrow> P (l # ls)"
    and "\<And>l ls. heading3_line l \<Longrightarrow> P ls \<Longrightarrow> P (l # ls)"
    and "\<And>l ls. bullet_line l \<Longrightarrow> P (dropWhile bullet_line ls) \<Longrightarrow> P (l # ls)"
    and "\<And>l ls. plain_line l \<Longrightarrow> P ls \<Longrightarrow> P (l # ls)"
  shows "P ls"
proof (induction ls rule: length_induct)
  case (1 xs)
  show ?case
  proof (cases xs)
    case Nil
    with assms(1) show ?thesis by simp
  next
    case (Cons l ls)
    have tl: "P ls" using 1 Cons by simp
    have "length (dropWhile bullet_line ls) < length xs"
      using Cons length_dropWhile_le [of bullet_line ls] by simp
    with 1 have dw: "P (dropWhile bullet_line ls)" by blast
    consider "blank_line l" | "heading2_line l" | "heading3_line l" | "bullet_line l"
      | "plain_line l"
      unfolding plain_line_def by blast
    then have "P (l # ls)"
    proof cases
      case 1 then show ?thesis using assms(2) tl by blast
    next
      case 2 then show ?thesis using assms(3) tl by blast
    next
      case 3 then show ?thesis using assms(4) tl by blast
    next
      case 4 then show ?thesis using assms(5) dw by blast
    next
      case 5 then show ?thesis using assms(6) tl by blast
    qed
    with Cons show ?thesis by simp
  qed
qed

lemma texts_list_of:
  "\<forall>l\<in>set run. bullet_line l \<Longrightarrow> texts (list_of body run) = map para_text run"
  by (auto simp: list_of_def item_of_def para_text_def heading2_not_bullet heading3_not_bullet)

lemma filter_takeWhile_bullets:
  "filter (\<lambda>l. \<not> blank_line l) (takeWhile bullet_line ls) = takeWhile bullet_line ls"
  by (rule filter_True) (auto dest: set_takeWhileD bullet_line_not_blank)

lemma texts_flow_data:
  "concat (map texts (flow_data body h2 h3 ls)) =
     map para_text (filter (\<lambda>l. \<not> blank_line l) ls)"
proof (induction ls rule: lines_induct)
  case Nil
  show ?case by simp
next
  case (blank l ls)
  then show ?case by (simp add: flow_data_Cons)
next
  case (heading2 l ls)
  then show ?case by (simp add: flow_data_Cons heading2_not_blank para_text_def)
next
  case (heading3 l ls)
  then show ?case
    by (simp add: flow_data_Cons heading3_not_blank heading3_not_heading2 para_text_def)
next
  case (bullets l ls)
  have run: "\<forall>x\<in>set (l # takeWhile bullet_line ls). bullet_line x"
    using bullets(1) by (auto dest: set_takeWhileD)
  have split: "filter (\<lambda>l. \<not> blank_line l) ls =
      takeWhile bullet_line ls @ filter (\<lambda>l. \<not> blank_line l) (dropWhile bullet_line ls)"
    using filter_append [of "\<lambda>l. \<not> blank_line l" "takeWhile bullet_line ls" "dropWhile bullet_line ls"]
    by (simp add: filter_takeWhile_bullets)
  have nb: "\<not> blank_line l" "\<not> heading2_line l" "\<not> heading3_line l"
    using bullets(1) bullet_line_not_blank heading2_not_bullet heading3_not_bullet by blast+
  have "concat (map texts (flow_data body h2 h3 (l # ls))) =
      texts (list_of body (l # takeWhile bullet_line ls)) @
      concat (map texts (flow_data body h2 h3 (dropWhile bullet_line ls)))"
    using bullets(1) nb by (simp add: flow_data_Cons)
  also have "\<dots> = map para_text (l # takeWhile bullet_line ls) @
      map para_text (filter (\<lambda>l. \<not> blank_line l) (dropWhile bullet_line ls))"
    using texts_list_of [OF run] bullets(2) by simp
  also have "\<dots> = map para_text (filter (\<lambda>l. \<not> blank_line l) (l # ls))"
    using nb(1) split by simp
  finally show ?case .
next
  case (plain l ls)
  then show ?case by (simp add: flow_data_Cons plain_line_def para_text_def)
qed

lemma flow_data_bullet:
  assumes "bullet_line l"
  shows "flow_data body h2 h3 (l # ls) =
    list_of body (l # takeWhile bullet_line ls) # Spacer 1 4 #
      flow_data body h2 h3 (dropWhile bullet_line ls)"
  using assms bullet_line_not_blank [OF assms] heading2_not_bullet [of l] heading3_not_bullet [of l]
  by (auto simp: flow_data_Cons)

lemma takeWhile_run:
  assumes "\<forall>l\<in>set run. bullet_line l" and "rest = [] \<or> \<not> bullet_line (hd rest)"
  shows "takeWhile bullet_line (run @ rest) = run"
    and "dropWhile bullet_line (run @ rest) = rest"
proof -
  have t: "takeWhile bullet_line rest = []" and d: "dropWhile bullet_line rest = rest"
    using assms(2) by (cases rest; simp)+
  show "takeWhile bullet_line (run @ rest) = run"
    using assms(1) t by (simp add: takeWhile_append2)
  show "dropWhile bullet_line (run @ rest) = rest"
    using assms(1) d by (simp add: dropWhile_append2)
qed

lemma flow_data_run:
  assumes "run \<noteq> []" and "\<forall>l\<in>set run. bullet_line l"
    and "rest = [] \<or> \<not> bullet_line (hd rest)"
  shows "flow_data body h2 h3 (run @ rest) =
    list_of body run # Spacer 1 4 # flow_data body h2 h3 rest"
proof -
  from assms(1) obtain l run' where run: "run = l # run'" by (cases run) auto
  with assms(2) have l: "bullet_line l" and run': "\<forall>l\<in>set run'. bullet_line l" by auto
  show ?thesis
    unfolding run append_Cons flow_data_bullet [OF l]
    using takeWhile_run [OF run' assms(3)] by simp
qed

lemma items_flow_data:
  "concat (map items_of (flow_data body h2 h3 ls)) = map (item_of body) (filter bullet_line ls)"
proof (induction ls rule: lines_induct)
  case Nil
  show ?case by simp
next
  case (blank l ls)
  then show ?case using bullet_line_not_blank [of l] by (auto simp: flow_data_Cons)
next
  case (heading2 l ls)
  then show ?case
    using heading2_not_blank [of l] heading2_not_bullet [of l] by (auto simp: flow_data_Cons)
next
  case (heading3 l ls)
  then show ?case
    using heading3_not_blank [of l] heading3_not_bullet [of l] heading3_not_heading2 [of l]
    by (auto simp: flow_data_Cons)
next
  case (bullets l ls)
  have f: "filter bullet_line ls =
      takeWhile bullet_line ls @ filter bullet_line (dropWhile bullet_line ls)"
  proof -
    have "filter bullet_line (takeWhile bullet_line ls) = takeWhile bullet_line ls"
      by (rule filter_True) (auto dest: set_takeWhileD)
    then show ?thesis
      using filter_append [of bullet_line "takeWhile bullet_line ls" "dropWhile bullet_line ls"]
      by simp
  qed
  show ?case
    unfolding flow_data_bullet [OF bullets(1)]
    using bullets f by (simp add: list_of_def)
next
  case (plain l ls)
  then show ?case by (simp add: flow_data_Cons plain_line_def)
qed

lemma paras_flow_data:
  "concat (map paras (flow_data body h2 h3 ls)) =
     map (para_of body h2 h3) (filter (\<lambda>l. \<not> blank_line l \<and> \<not> bullet_line l) ls)"
proof (induction ls rule: lines_induct)
  case Nil
  show ?case by simp
next
  case (blank l ls)
  then show ?case by (simp add: flow_data_Cons)
next
  case (heading2 l ls)
  then show ?case
    using heading2_not_blank [of l] heading2_not_bullet [of l]
    by (simp add: flow_data_Cons para_of_def)
next
  case (heading3 l ls)
  then show ?case
    using heading3_not_blank [of l] heading3_not_bullet [of l] heading3_not_heading2 [of l]
    by (simp add: flow_data_Cons para_of_def)
next
  case (bullets l ls)
  have f: "filter (\<lambda>l. \<not> blank_line l \<and> \<not> bullet_line l) ls =
      filter (\<lambda>l. \<not> blank_line l \<and> \<not> bullet_line l) (dropWhile bullet_line ls)"
  proof -
    have "filter (\<lambda>l. \<not> blank_line l \<and> \<not> bullet_line l) (takeWhile bullet_line ls) = []"
      by (auto simp: filter_empty_conv dest: set_takeWhileD)
    then show ?thesis
      using filter_append [of "\<lambda>l. \<not> blank_line l \<and> \<not> bullet_line l"
          "takeWhile bullet_line ls" "dropWhile bullet_line ls"]
      by simp
  qed
  show ?case
    unfolding flow_data_bullet [OF bullets(1)]
    using bullets f by (simp add: list_of_def)
next
  case (plain l ls)
  then show ?case by (simp add: flow_data_Cons plain_line_def para_of_def)
qed

lemma in_paras: "p \<in> set (concat (map paras flow)) \<longleftrightarrow> Para p \<in> set flow"
proof (induction flow)
  case Nil
  show ?case by simp
next
  case (Cons f flow)
  then show ?case by (cases f) auto
qed

lemma strip_Cons:
  assumes "lstrip l = c # t"
  shows "strip l = c # rstrip t"
proof -
  have ns: "\<not> is_space c"
    using assms hd_dropWhile [of is_space l] unfolding lstrip_def by force
  have l: "l = takeWhile is_space l @ c # t"
    using lstrip_decomp [of l] assms by simp
  have "rstrip l = takeWhile is_space l @ c # rstrip t"
    using rstrip_append_nonspace [OF ns, of "takeWhile is_space l" t] l by simp
  moreover have "lstrip (takeWhile is_space l @ c # rstrip t) = c # rstrip t"
  proof (rule lstrip_append_nonspace)
    show "\<forall>x\<in>set (takeWhile is_space l). is_space x"
      by (blast dest: set_takeWhileD)
  qed (rule ns)
  ultimately show ?thesis by (simp only: strip_def)
qed

lemma marker_only:
  assumes "strip l = str ''-'' \<or> strip l = str ''*'' \<or> strip l = bullet_glyph"
  shows "bullet_line l" and "strip (drop 1 (lstrip l)) = []"
proof -
  from assms obtain c where c: "strip l = [c]" "c = 45 \<or> c = 42 \<or> c = 8226"
    by (auto simp: str_def bullet_glyph_def)
  then have "startswith_bullet (lstrip (rstrip l))"
    by (auto simp: strip_def startswith_bullet_iff)
  then show b: "bullet_line l"
    by (simp add: bullet_rstrip_iff bullet_line_def)
  then obtain c' t where t: "lstrip l = c' # t"
    by (auto simp: bullet_line_def startswith_bullet_iff)
  from strip_Cons [OF t] c(1) have "rstrip t = []" by simp
  then have "strip t = []" by (simp add: strip_def lstrip_def)
  with t show "strip (drop 1 (lstrip l)) = []" by simp
qed

lemma hash_line:
  assumes "startswith (rstrip l) (35 # p)"
  shows "\<not> blank_line l" and "\<not> bullet_line l" and "l \<noteq> []" and "hd l = 35"
proof -
  from assms obtain t where t: "rstrip l = 35 # t"
    by (auto simp: startswith_Cons)
  then obtain t' where l: "l = 35 # t'" using rstrip_Cons_hd by blast
  have "strip l = lstrip (rstrip l)" by (simp add: strip_def)
  also have "\<dots> = 35 # t" using t by (simp add: lstrip_def is_space_def)
  finally show "\<not> blank_line l" by (simp add: blank_line_def)
  show "\<not> bullet_line l" unfolding bullet_line_def using assms by (rule hash_not_bullet)
  show "l \<noteq> []" "hd l = 35" using l by simp_all
qed

lemma str_hh: "str ''##'' = [35, 35]"
  by (simp add: str_def)

lemma indented_not_heading:
  assumes "l \<noteq> []" and "is_space (hd l)"
  shows "\<not> heading2_line l" and "\<not> heading3_line l"
proof -
  have ns: "\<not> is_space 35" by (simp add: is_space_def)
  show "\<not> heading2_line l"
    unfolding heading2_line_def str_h2 using hash_line(4) [of l] assms(2) ns by metis
  show "\<not> heading3_line l"
    unfolding heading3_line_def str_h3 using hash_line(4) [of l] assms(2) ns by metis
qed

text \<open>The loops of the source, by the exception of the first call that raises.\<close>

lemma first_error_append:
  "first_error init body h2 h3 (xs @ ys) =
     (case first_error init body h2 h3 xs of
        Some e \<Rightarrow> Some e
      | None \<Rightarrow> first_error init body h2 h3 ys)"
  by (induction xs) (auto split: option.splits)

lemma first_error_None_iff:
  "first_error init body h2 h3 ls = None \<longleftrightarrow> accepted init body h2 h3 ls"
  by (induction ls) (auto simp: accepted_def split: option.splits)

lemma first_error_Some:
  "first_error init body h2 h3 ls = Some e \<Longrightarrow>
     \<exists>l\<in>set ls. \<not> blank_line l \<and> init (para_text l) (line_style body h2 h3 l) = Some e"
  by (induction ls) (auto split: option.splits if_splits)

lemma bullet_call:
  assumes "bullet_line l"
  shows "para_text l = strip (drop 1 (lstrip l))" and "line_style body h2 h3 l = body"
    and "\<not> blank_line l"
  using assms heading2_not_bullet [of l] heading3_not_bullet [of l] bullet_line_not_blank [of l]
  by (auto simp: para_text_def line_style_def)

lemma items_loop_eq:
  "items_loop init body ls =
     (case first_error init body h2 h3 (takeWhile bullet_line ls) of
        Some e \<Rightarrow> Inl e
      | None \<Rightarrow> Inr (items_data body ls))"
proof (induction ls)
  case Nil
  show ?case by simp
next
  case (Cons l ls)
  show ?case
  proof (cases "bullet_line l")
    case False
    then show ?thesis by (simp add: bullet_line_def)
  next
    case True
    have c: "para_text l = strip (drop 1 (lstrip l))" "line_style body h2 h3 l = body"
      "\<not> blank_line l"
      using bullet_call [OF True] by simp_all
    from True have s: "startswith_bullet (lstrip l)" by (simp add: bullet_line_def)
    have fe: "first_error init body h2 h3 (takeWhile bullet_line (l # ls)) =
        (case init (strip (drop 1 (lstrip l))) body of
           Some e \<Rightarrow> Some e
         | None \<Rightarrow> first_error init body h2 h3 (takeWhile bullet_line ls))"
      using True c by simp
    show ?thesis
      unfolding fe
      using Cons s
      by (cases "init (strip (drop 1 (lstrip l))) body";
          cases "first_error init body h2 h3 (takeWhile bullet_line ls)")
        (simp_all add: Let_def split: prod.splits)
  qed
qed

lemma flow_loop_Cons:
  "flow_loop init body h2 h3 (l # ls) =
     (if blank_line l then appended [Spacer 1 6] (flow_loop init body h2 h3 ls)
      else if bullet_line l then
        (case first_error init body h2 h3 (l # takeWhile bullet_line ls) of
           Some e \<Rightarrow> Inl e
         | None \<Rightarrow>
             appended [list_of body (l # takeWhile bullet_line ls), Spacer 1 4]
               (flow_loop init body h2 h3 (dropWhile bullet_line ls)))
      else
        (case init (para_text l) (line_style body h2 h3 l) of
           Some e \<Rightarrow> Inl e
         | None \<Rightarrow> appended [Para (para_of body h2 h3 l)] (flow_loop init body h2 h3 ls)))"
proof -
  consider "blank_line l" | "heading2_line l" | "heading3_line l" | "bullet_line l"
    | "plain_line l"
    unfolding plain_line_def by blast
  then show ?thesis
  proof cases
    case 1
    then show ?thesis by (simp add: blank_line_def strip_rstrip)
  next
    case 2
    have p: "para_text l = strip (drop 3 (rstrip l))" "line_style body h2 h3 l = h2"
      "para_of body h2 h3 l = Paragraph (strip (drop 3 (rstrip l))) h2"
      using 2 by (simp_all add: para_text_def line_style_def para_of_def)
    show ?thesis
      unfolding p
      using 2 heading2_not_blank [of l] heading2_not_bullet [of l]
      by (simp add: blank_line_def strip_rstrip Let_def heading2_line_def)
  next
    case 3
    have p: "para_text l = strip (drop 4 (rstrip l))" "line_style body h2 h3 l = h3"
      "para_of body h2 h3 l = Paragraph (strip (drop 4 (rstrip l))) h3"
      using 3 heading3_not_heading2 [of l]
      by (simp_all add: para_text_def line_style_def para_of_def)
    show ?thesis
      unfolding p
      using 3 heading3_not_blank [of l] heading3_not_bullet [of l] heading3_not_heading2 [of l]
      by (simp add: blank_line_def strip_rstrip Let_def heading3_line_def heading2_line_def)
  next
    case 4
    have b: "items_loop init body (l # ls) =
        (case first_error init body h2 h3 (takeWhile bullet_line (l # ls)) of
           Some e \<Rightarrow> Inl e
         | None \<Rightarrow> Inr (items_data body (l # ls)))"
      by (rule items_loop_eq)
    have d: "items_data body (l # ls) =
        (map (item_of body) (l # takeWhile bullet_line ls), dropWhile bullet_line ls)"
      using 4 items_data_eq [of body "l # ls"] by simp
    have t: "takeWhile bullet_line (l # ls) = l # takeWhile bullet_line ls"
      using 4 by simp
    have "\<not> blank_line l" "\<not> heading2_line l" "\<not> heading3_line l"
      using 4 bullet_line_not_blank heading2_not_bullet heading3_not_bullet by blast+
    then have n: "strip (rstrip l) \<noteq> []" "\<not> startswith (rstrip l) (str ''## '')"
      "\<not> startswith (rstrip l) (str ''### '')"
      by (simp_all add: blank_line_def strip_rstrip heading2_line_def heading3_line_def)
    have nb: "startswith_bullet (lstrip (rstrip l))"
      using 4 by (simp add: bullet_rstrip_iff bullet_line_def)
    have "flow_loop init body h2 h3 (l # ls) =
        (case items_loop init body (l # ls) of
           Inl e \<Rightarrow> Inl e
         | Inr (items, rest) \<Rightarrow>
             appended [ListFlowable items ''bullet'' bullet_glyph 6, Spacer 1 4]
               (flow_loop init body h2 h3 rest))"
      using n nb by (simp add: Let_def del: items_loop.simps)
    also have "\<dots> =
        (case first_error init body h2 h3 (l # takeWhile bullet_line ls) of
           Some e \<Rightarrow> Inl e
         | None \<Rightarrow>
             appended [list_of body (l # takeWhile bullet_line ls), Spacer 1 4]
               (flow_loop init body h2 h3 (dropWhile bullet_line ls)))"
      unfolding b d t list_of_def
      by (cases "first_error init body h2 h3 (l # takeWhile bullet_line ls)") simp_all
    finally show ?thesis
      using 4 bullet_line_not_blank [of l] by (simp only: if_True if_False)
  next
    case 5
    then have f: "\<not> blank_line l" "\<not> heading2_line l" "\<not> heading3_line l" "\<not> bullet_line l"
      by (simp_all add: plain_line_def)
    have p: "para_text l = rstrip l" "line_style body h2 h3 l = body"
      "para_of body h2 h3 l = Paragraph (rstrip l) body"
      using f by (simp_all add: para_text_def line_style_def para_of_def)
    show ?thesis
      unfolding p
      using f
      by (simp add: blank_line_def strip_rstrip Let_def heading3_line_def heading2_line_def
          bullet_line_def bullet_rstrip_iff)
  qed
qed

declare flow_loop.simps(2) [simp del]

lemma appended_simps:
  "appended xs (Inl e) = Inl e" "appended xs (Inr flow) = Inr (xs @ flow)"
  by (simp_all add: appended_def)

lemma flow_loop_eq:
  "flow_loop init body h2 h3 ls =
     (case first_error init body h2 h3 ls of
        Some e \<Rightarrow> Inl e
      | None \<Rightarrow> Inr (flow_data body h2 h3 ls))"
proof (induction ls rule: lines_induct)
  case Nil
  show ?case by simp
next
  case (blank l ls)
  then show ?case
    by (cases "first_error init body h2 h3 ls")
      (simp_all add: flow_loop_Cons flow_data_Cons appended_simps)
next
  case (heading2 l ls)
  note n = heading2_not_blank [OF heading2(1)] heading2_not_bullet [OF heading2(1)]
  have p: "para_of body h2 h3 l = Paragraph (strip (drop 3 (rstrip l))) h2"
    using heading2(1) by (simp add: para_of_def)
  show ?case
    using heading2 n
    by (cases "init (para_text l) (line_style body h2 h3 l)";
        cases "first_error init body h2 h3 ls")
      (simp_all add: flow_loop_Cons flow_data_Cons appended_simps p)
next
  case (heading3 l ls)
  note n = heading3_not_blank [OF heading3(1)] heading3_not_bullet [OF heading3(1)]
    heading3_not_heading2 [OF heading3(1)]
  have p: "para_of body h2 h3 l = Paragraph (strip (drop 4 (rstrip l))) h3"
    using heading3(1) n by (simp add: para_of_def)
  show ?case
    using heading3 n
    by (cases "init (para_text l) (line_style body h2 h3 l)";
        cases "first_error init body h2 h3 ls")
      (simp_all add: flow_loop_Cons flow_data_Cons appended_simps p)
next
  case (bullets l ls)
  have "l # ls = (l # takeWhile bullet_line ls) @ dropWhile bullet_line ls" by simp
  then have f: "first_error init body h2 h3 (l # ls) =
      (case first_error init body h2 h3 (l # takeWhile bullet_line ls) of
         Some e \<Rightarrow> Some e
       | None \<Rightarrow> first_error init body h2 h3 (dropWhile bullet_line ls))"
    using first_error_append [of init body h2 h3 "l # takeWhile bullet_line ls"
        "dropWhile bullet_line ls"] by simp
  have "flow_loop init body h2 h3 (l # ls) =
      (case first_error init body h2 h3 (l # takeWhile bullet_line ls) of
         Some e \<Rightarrow> Inl e
       | None \<Rightarrow>
           appended [list_of body (l # takeWhile bullet_line ls), Spacer 1 4]
             (flow_loop init body h2 h3 (dropWhile bullet_line ls)))"
    using bullets(1) bullet_line_not_blank [of l]
    by (simp add: flow_loop_Cons del: first_error.simps)
  then show ?case
    unfolding f bullets(2) flow_data_bullet [OF bullets(1)]
    by (cases "first_error init body h2 h3 (l # takeWhile bullet_line ls)";
        cases "first_error init body h2 h3 (dropWhile bullet_line ls)")
      (simp_all add: appended_simps del: first_error.simps)
next
  case (plain l ls)
  then have f: "\<not> blank_line l" "\<not> heading2_line l" "\<not> heading3_line l" "\<not> bullet_line l"
    by (simp_all add: plain_line_def)
  have p: "para_of body h2 h3 l = Paragraph (rstrip l) body"
    using f by (simp add: para_of_def)
  show ?case
    using plain(2) f
    by (cases "init (para_text l) (line_style body h2 h3 l)";
        cases "first_error init body h2 h3 ls")
      (simp_all add: flow_loop_Cons flow_data_Cons appended_simps p)
qed

lemma markdown_to_flowables_eq:
  assumes "styles ''BodyText'' = Some b" and "styles ''Heading2'' = Some p2"
    and "styles ''Heading3'' = Some p3"
  shows "markdown_to_flowables init md styles =
     (case first_error init (Sheet b) (H2 p2) (H3 p3) (splitlines md) of
        Some e \<Rightarrow> Inl e
      | None \<Rightarrow> Inr (flow_data (Sheet b) (H2 p2) (H3 p3) (splitlines md)))"
  using assms by (simp add: markdown_to_flowables_def flow_loop_eq)

lemma markdown_to_flowables_Inr:
  assumes "styles ''BodyText'' = Some b" and "styles ''Heading2'' = Some p2"
    and "styles ''Heading3'' = Some p3"
  shows "markdown_to_flowables init md styles = Inr flow \<longleftrightarrow>
     accepted init (Sheet b) (H2 p2) (H3 p3) (splitlines md) \<and>
     flow = flow_data (Sheet b) (H2 p2) (H3 p3) (splitlines md)"
  unfolding markdown_to_flowables_eq [OF assms]
  using first_error_None_iff [of init "Sheet b" "H2 p2" "H3 p3" "splitlines md"]
  by (cases "first_error init (Sheet b) (H2 p2) (H3 p3) (splitlines md)") auto

lemma spacers_flow_data:
  "length (filter (\<lambda>f. f = Spacer 1 6) (flow_data body h2 h3 ls)) = length (filter blank_line ls)"
proof (induction ls rule: lines_induct)
  case Nil
  show ?case by simp
next
  case (blank l ls)
  then show ?case by (simp add: flow_data_Cons)
next
  case (heading2 l ls)
  then show ?case using heading2_not_blank [of l] by (simp add: flow_data_Cons)
next
  case (heading3 l ls)
  then show ?case
    using heading3_not_blank [of l] heading3_not_heading2 [of l] by (simp add: flow_data_Cons)
next
  case (bullets l ls)
  have "filter blank_line (takeWhile bullet_line ls) = []"
    by (auto simp: filter_empty_conv dest: set_takeWhileD bullet_line_not_blank)
  then have f: "filter blank_line ls = filter blank_line (dropWhile bullet_line ls)"
    using filter_append [of blank_line "takeWhile bullet_line ls" "dropWhile bullet_line ls"]
    by simp
  show ?case
    unfolding flow_data_bullet [OF bullets(1)]
    using bullets bullet_line_not_blank [of l] f by (simp add: list_of_def)
next
  case (plain l ls)
  then show ?case by (simp add: flow_data_Cons plain_line_def)
qed

lemma blank_spacer:
  assumes "l \<in> set ls" and "blank_line l"
  shows "Spacer 1 6 \<in> set (flow_data body h2 h3 ls)"
proof -
  from assms have "filter blank_line ls \<noteq> []"
    by (auto simp: filter_empty_conv)
  then have "filter (\<lambda>f. f = Spacer 1 6) (flow_data body h2 h3 ls) \<noteq> []"
    using spacers_flow_data [of body h2 h3 ls] by (metis length_0_conv)
  then show ?thesis
    by (auto simp: filter_empty_conv)
qed

text \<open>Facts that evaluate the string functions on a literal.\<close>

lemmas line_eval = str_def rstrip_def lstrip_def strip_def startswith_Cons startswith_Nil is_space_def
  startswith_bullet_iff blank_line_def heading2_line_def heading3_line_def bullet_line_def
  plain_line_def para_text_def line_style_def

lemmas split_eval = str_def Let_def is_linebreak_def startswith_Cons startswith_Nil

lemma sheet5_styles:
  "sheet5 ''BodyText'' = Some 2" "sheet5 ''Heading2'' = Some 3" "sheet5 ''Heading3'' = Some 4"
  "sheet5 ''Title'' = Some 0" "sheet5 ''Normal'' = Some 1"
  by (simp_all add: sheet5_def)

lemma contains_Cons: "contains t (c # p) \<Longrightarrow> c \<in> set t"
  by (induction t) (auto simp: startswith_Cons)

lemma markup_plain: "60 \<notin> set t \<Longrightarrow> markup t style = None"
  using contains_Cons [of t 60 "[98, 62]"] by (auto simp: markup_def str_def)

section \<open>The claims\<close>

text \<open>
  In the claims, \<open>buildBlocks\<close> is \<open>markdown_to_flowables\<close>; a \<open>Heading\<close> of level 2 or 3
  is a paragraph in the style \<open>H2\<close> or \<open>H3\<close>, a \<open>Paragraph\<close> is a paragraph in the sheet's
  \<open>BodyText\<close> style, a \<open>ListBlock\<close> is a \<open>ListFlowable\<close> and a \<open>Blank\<close> is a \<open>Spacer\<close>.
  The claims on \<open>markdown_to_flowables\<close> are stated for a style sheet that has the three
  entries the function looks up, as the sheet \<open>write_pdf\<close> passes has, and for every
  constructor \<open>init\<close> of paragraphs.
\<close>

text \<open>
  Claim C4, as amended: \<open>buildBlocks\<close> terminates on every input text (both loops are
  total functions: the inner loop always consumes the line that made the outer loop enter
  it), and it returns a sequence of blocks exactly when \<open>Paragraph\<close> constructs on the
  text of every non-blank line. When it does not, the function fails with the exception
  of the first line whose text \<open>Paragraph\<close> rejects. The empty text gives the empty
  sequence of blocks. The claim as stated has the function never fail: the counterexample
  is a text that opens a tag and never closes it, on which ReportLab's \<open>Paragraph\<close>
  raises.
\<close>

theorem markdown_to_flowables_returns:
  assumes "styles ''BodyText'' = Some b" and "styles ''Heading2'' = Some p2"
    and "styles ''Heading3'' = Some p3"
  shows "(first_error init (Sheet b) (H2 p2) (H3 p3) (splitlines md) = None \<longrightarrow>
       (\<exists>flow. markdown_to_flowables init md styles = Inr flow)) \<and>
    (\<forall>e. first_error init (Sheet b) (H2 p2) (H3 p3) (splitlines md) = Some e \<longrightarrow>
       markdown_to_flowables init md styles = Inl e) \<and>
    (first_error init (Sheet b) (H2 p2) (H3 p3) (splitlines md) = None \<longleftrightarrow>
       accepted init (Sheet b) (H2 p2) (H3 p3) (splitlines md)) \<and>
    markdown_to_flowables init [] styles = Inr []"
  using markdown_to_flowables_eq [OF assms, of init md]
    markdown_to_flowables_eq [OF assms, of init "[]"]
    first_error_None_iff [of init "Sheet b" "H2 p2" "H3 p3" "splitlines md"]
  by (cases "first_error init (Sheet b) (H2 p2) (H3 p3) (splitlines md)") auto

theorem markdown_to_flowables_returns_witness:
  "(\<exists>flow. markdown_to_flowables markup (str ''a'') sheet5 = Inr flow) \<and>
   markdown_to_flowables markup [] sheet5 = Inr []"
proof -
  have l: "splitlines (str ''a'') = [str ''a'']" by (simp add: split_eval)
  have p: "\<not> blank_line (str ''a'')" "para_text (str ''a'') = str ''a''"
    by (simp_all add: line_eval)
  have m: "markup (str ''a'') (line_style (Sheet (2::nat)) (H2 3) (H3 4) (str ''a'')) = None"
    by (rule markup_plain) (simp add: str_def)
  have "first_error markup (Sheet (2::nat)) (H2 3) (H3 4) (splitlines (str ''a'')) = None"
    unfolding l by (simp add: p m)
  with markdown_to_flowables_returns [OF sheet5_styles(1-3), of markup "str ''a''"]
  show ?thesis by blast
qed

theorem raising_text_counterexample:
  "markdown_to_flowables markup (str ''<b>x'') sheet5 = Inl (ValueError ''Parse error'')"
proof -
  have l: "splitlines (str ''<b>x'') = [str ''<b>x'']" by (simp add: split_eval)
  have p: "\<not> blank_line (str ''<b>x'')" "para_text (str ''<b>x'') = str ''<b>x''"
    by (simp_all add: line_eval)
  have m: "markup (str ''<b>x'') s = Some (ValueError ''Parse error'')" for s :: "nat para_style"
    by (simp add: markup_def startswith_Cons startswith_Nil str_def)
  have "first_error markup (Sheet (2::nat)) (H2 3) (H3 4) (splitlines (str ''<b>x'')) =
      Some (ValueError ''Parse error'')"
    unfolding l by (simp add: p m)
  then show ?thesis
    by (simp add: markdown_to_flowables_eq [OF sheet5_styles(1-3)])
qed

text \<open>
  Claim C7: on the text of the scenario the function returns exactly six flowables: the
  level-2 heading "Trip Overview", the paragraph "Sample text.", a spacer, the level-3
  heading "Day 1", one list of the two items "Museum visit" and "Coffee break", and the
  spacer that follows a list. The five texts of the scenario have no markup in them, and
  \<open>Paragraph\<close> constructs on them: these are the five calls the function makes.
\<close>

theorem scenario_trip_overview:
  assumes "styles ''BodyText'' = Some b" and "styles ''Heading2'' = Some p2"
    and "styles ''Heading3'' = Some p3"
    and "init (str ''Trip Overview'') (H2 p2) = None"
    and "init (str ''Sample text.'') (Sheet b) = None"
    and "init (str ''Day 1'') (H3 p3) = None"
    and "init (str ''Museum visit'') (Sheet b) = None"
    and "init (str ''Coffee break'') (Sheet b) = None"
  shows "markdown_to_flowables init
      (str ''## Trip Overview\<newline>Sample text.\<newline>\<newline>### Day 1\<newline>- Museum visit\<newline>- Coffee break\<newline>'')
      styles =
    Inr [Para (Paragraph (str ''Trip Overview'') (H2 p2)),
         Para (Paragraph (str ''Sample text.'') (Sheet b)),
         Spacer 1 6,
         Para (Paragraph (str ''Day 1'') (H3 p3)),
         ListFlowable
           [ListItem (Paragraph (str ''Museum visit'') (Sheet b)) 12,
            ListItem (Paragraph (str ''Coffee break'') (Sheet b)) 12]
           ''bullet'' bullet_glyph 6,
         Spacer 1 4]"
proof -
  have lines: "splitlines
      (str ''## Trip Overview\<newline>Sample text.\<newline>\<newline>### Day 1\<newline>- Museum visit\<newline>- Coffee break\<newline>'') =
    [str ''## Trip Overview'', str ''Sample text.'', [], str ''### Day 1'',
     str ''- Museum visit'', str ''- Coffee break'']"
    by (simp add: split_eval)
  have l1: "\<not> blank_line (str ''## Trip Overview'')" "heading2_line (str ''## Trip Overview'')"
    "strip (drop 3 (rstrip (str ''## Trip Overview''))) = str ''Trip Overview''"
    by (simp_all add: line_eval)
  have l2: "\<not> blank_line (str ''Sample text.'')" "\<not> heading2_line (str ''Sample text.'')"
    "\<not> heading3_line (str ''Sample text.'')" "\<not> bullet_line (str ''Sample text.'')"
    "rstrip (str ''Sample text.'') = str ''Sample text.''"
    by (simp_all add: line_eval)
  have l3: "blank_line []" by (simp add: line_eval)
  have l4: "\<not> blank_line (str ''### Day 1'')" "\<not> heading2_line (str ''### Day 1'')"
    "heading3_line (str ''### Day 1'')"
    "strip (drop 4 (rstrip (str ''### Day 1''))) = str ''Day 1''"
    by (simp_all add: line_eval)
  have l5: "\<not> blank_line (str ''- Museum visit'')" "\<not> heading2_line (str ''- Museum visit'')"
    "\<not> heading3_line (str ''- Museum visit'')" "bullet_line (str ''- Museum visit'')"
    "strip (drop 1 (lstrip (str ''- Museum visit''))) = str ''Museum visit''"
    by (simp_all add: line_eval)
  have l6: "\<not> blank_line (str ''- Coffee break'')" "\<not> heading2_line (str ''- Coffee break'')"
    "\<not> heading3_line (str ''- Coffee break'')" "bullet_line (str ''- Coffee break'')"
    "strip (drop 1 (lstrip (str ''- Coffee break''))) = str ''Coffee break''"
    by (simp_all add: line_eval)
  have t: "para_text (str ''## Trip Overview'') = str ''Trip Overview''"
    "para_text (str ''Sample text.'') = str ''Sample text.''"
    "para_text (str ''### Day 1'') = str ''Day 1''"
    "para_text (str ''- Museum visit'') = str ''Museum visit''"
    "para_text (str ''- Coffee break'') = str ''Coffee break''"
    unfolding para_text_def by (simp_all add: l1 l2 l4 l5 l6 del: One_nat_def)
  have s: "line_style (Sheet b) (H2 p2) (H3 p3) (str ''## Trip Overview'') = H2 p2"
    "line_style (Sheet b) (H2 p2) (H3 p3) (str ''Sample text.'') = Sheet b"
    "line_style (Sheet b) (H2 p2) (H3 p3) (str ''### Day 1'') = H3 p3"
    "line_style (Sheet b) (H2 p2) (H3 p3) (str ''- Museum visit'') = Sheet b"
    "line_style (Sheet b) (H2 p2) (H3 p3) (str ''- Coffee break'') = Sheet b"
    unfolding line_style_def by (simp_all add: l1 l2 l4 l5 l6)
  have e: "first_error init (Sheet b) (H2 p2) (H3 p3)
      [str ''## Trip Overview'', str ''Sample text.'', [], str ''### Day 1'',
       str ''- Museum visit'', str ''- Coffee break''] = None"
    by (simp add: l1 l2 l3 l4 l5 l6 t s assms(4-8))
  show ?thesis
    unfolding markdown_to_flowables_eq [OF assms(1-3)] lines e
    by (simp add: flow_data_Cons l1 l2 l3 l4 l5 l6 list_of_def item_of_def del: One_nat_def)
qed

theorem scenario_trip_overview_witness:
  "markdown_to_flowables markup
      (str ''## Trip Overview\<newline>Sample text.\<newline>\<newline>### Day 1\<newline>- Museum visit\<newline>- Coffee break\<newline>'')
      sheet5 =
    Inr [Para (Paragraph (str ''Trip Overview'') (H2 3)),
         Para (Paragraph (str ''Sample text.'') (Sheet 2)),
         Spacer 1 6,
         Para (Paragraph (str ''Day 1'') (H3 4)),
         ListFlowable
           [ListItem (Paragraph (str ''Museum visit'') (Sheet 2)) 12,
            ListItem (Paragraph (str ''Coffee break'') (Sheet 2)) 12]
           ''bullet'' bullet_glyph 6,
         Spacer 1 4]"
  by (rule scenario_trip_overview [OF sheet5_styles(1-3)]; rule markup_plain)
    (simp_all add: str_def)

lemma para_text_spec:
  "para_text l = (if heading2_line l \<or> heading3_line l then strip (spec_text l) else spec_text l)"
  using heading3_not_heading2 [of l]
  by (auto simp: para_text_def spec_text_def)

text \<open>
  Claim C1, as amended: for every input text on which \<open>buildBlocks\<close> returns, and it
  returns whenever \<open>Paragraph\<close> constructs on the text of every non-blank line, the texts
  carried by the flowables (the text of every heading and paragraph and of every list
  item, in the order of the flowables and of the items, spacers left out) are the texts
  \<open>para_text\<close> of the non-blank lines of the input, in the order of the lines: no line is
  lost, none is reordered. The text of a line is the line with its marker stripped as
  the specification has it, and \<^emph>\<open>for a heading line with the whitespace around the
  remainder stripped as well\<close>. The claim as stated has the remainder itself for a heading
  line, and a result for every text: the counterexample is a level-3 heading line with
  two spaces after the marker, whose text in the output does not start with a space, and
  a text on which \<open>Paragraph\<close> raises, for which no block is emitted.
\<close>

theorem texts_preserved:
  assumes "styles ''BodyText'' = Some b" and "styles ''Heading2'' = Some p2"
    and "styles ''Heading3'' = Some p3"
  shows "(accepted init (Sheet b) (H2 p2) (H3 p3) (splitlines md) \<longrightarrow>
       (\<exists>flow. markdown_to_flowables init md styles = Inr flow)) \<and>
    (\<forall>flow. markdown_to_flowables init md styles = Inr flow \<longrightarrow>
       concat (map texts flow) =
         map para_text (filter (\<lambda>l. \<not> blank_line l) (splitlines md))) \<and>
    (\<forall>l. para_text l =
       (if heading2_line l \<or> heading3_line l then strip (spec_text l) else spec_text l))"
  using markdown_to_flowables_Inr [OF assms, of init md]
  by (simp add: texts_flow_data para_text_spec)

theorem texts_preserved_witness:
  "\<exists>flow. markdown_to_flowables markup (str ''## A\<newline>\<newline>- b\<newline>  * c \<newline>  d'') sheet5 = Inr flow \<and>
    concat (map texts flow) = [str ''A'', str ''b'', str ''c'', str ''  d'']"
proof -
  have lines: "splitlines (str ''## A\<newline>\<newline>- b\<newline>  * c \<newline>  d'') =
      [str ''## A'', [], str ''- b'', str ''  * c '', str ''  d'']"
    by (simp add: split_eval)
  have t: "para_text (str ''## A'') = str ''A''" "para_text (str ''- b'') = str ''b''"
    "para_text (str ''  * c '') = str ''c''" "para_text (str ''  d'') = str ''  d''"
    by (simp_all add: line_eval)
  have b: "\<not> blank_line (str ''## A'')" "blank_line []" "\<not> blank_line (str ''- b'')"
    "\<not> blank_line (str ''  * c '')" "\<not> blank_line (str ''  d'')"
    by (simp_all add: line_eval)
  have m: "markup (str ''A'') s = None" "markup (str ''b'') s = None"
    "markup (str ''c'') s = None" "markup (str ''  d'') s = None" for s :: "nat para_style"
    by (rule markup_plain, simp add: str_def)+
  have a: "accepted markup (Sheet (2::nat)) (H2 3) (H3 4)
      (splitlines (str ''## A\<newline>\<newline>- b\<newline>  * c \<newline>  d''))"
    unfolding lines accepted_def by (simp add: t b m)
  from texts_preserved [OF sheet5_styles(1-3), of markup
      "str ''## A\<newline>\<newline>- b\<newline>  * c \<newline>  d''"] a
  obtain flow where
    f: "markdown_to_flowables markup (str ''## A\<newline>\<newline>- b\<newline>  * c \<newline>  d'') sheet5 = Inr flow"
    and x: "concat (map texts flow) = map para_text (filter (\<lambda>l. \<not> blank_line l)
      (splitlines (str ''## A\<newline>\<newline>- b\<newline>  * c \<newline>  d'')))"
    by blast
  have "concat (map texts flow) = [str ''A'', str ''b'', str ''c'', str ''  d'']"
    unfolding x lines by (simp add: t b)
  with f show ?thesis by blast
qed

theorem texts_counterexample:
  "markdown_to_flowables markup (str ''###  Day 1'') sheet5 =
     Inr [Para (Paragraph (str ''Day 1'') (H3 4))] \<and>
   splitlines (str ''###  Day 1'') = [str ''###  Day 1''] \<and>
   spec_text (str ''###  Day 1'') = str '' Day 1'' \<and>
   texts (Para (Paragraph (str ''Day 1'') (H3 (4::nat)))) = [str ''Day 1''] \<and>
   str ''Day 1'' \<noteq> str '' Day 1'' \<and>
   markdown_to_flowables markup (str ''<b>x'') sheet5 = Inl (ValueError ''Parse error'')"
proof -
  have lines: "splitlines (str ''###  Day 1'') = [str ''###  Day 1'']"
    "splitlines (str ''<b>x'') = [str ''<b>x'']"
    by (simp_all add: split_eval)
  have l: "\<not> blank_line (str ''###  Day 1'')" "\<not> heading2_line (str ''###  Day 1'')"
    "heading3_line (str ''###  Day 1'')" "\<not> bullet_line (str ''###  Day 1'')"
    "strip (drop 4 (rstrip (str ''###  Day 1''))) = str ''Day 1''"
    "drop 4 (rstrip (str ''###  Day 1'')) = str '' Day 1''"
    by (simp_all add: line_eval)
  have c: "para_text (str ''###  Day 1'') = str ''Day 1''"
    "line_style (Sheet (2::nat)) (H2 3) (H3 4) (str ''###  Day 1'') = H3 4"
    unfolding para_text_def line_style_def by (simp_all add: l(1-5))
  have c3: "spec_text (str ''###  Day 1'') = str '' Day 1''"
    unfolding spec_text_def by (simp add: l(1-4,6))
  have m: "markup (str ''Day 1'') (H3 (4::nat)) = None"
    by (rule markup_plain) (simp add: str_def)
  have e: "first_error markup (Sheet (2::nat)) (H2 3) (H3 4) [str ''###  Day 1''] = None"
    by (simp add: l c m)
  have 1: "markdown_to_flowables markup (str ''###  Day 1'') sheet5 =
      Inr [Para (Paragraph (str ''Day 1'') (H3 4))]"
    unfolding markdown_to_flowables_eq [OF sheet5_styles(1-3)] lines e
    by (simp add: flow_data_Cons l(1-5))
  have p: "\<not> blank_line (str ''<b>x'')" "para_text (str ''<b>x'') = str ''<b>x''"
    by (simp_all add: line_eval)
  have r: "markup (str ''<b>x'') s = Some (ValueError ''Parse error'')" for s :: "nat para_style"
    by (simp add: markup_def startswith_Cons startswith_Nil str_def)
  have "first_error markup (Sheet (2::nat)) (H2 3) (H3 4) [str ''<b>x''] =
      Some (ValueError ''Parse error'')"
    by (simp add: p r)
  then have 2: "markdown_to_flowables markup (str ''<b>x'') sheet5 =
      Inl (ValueError ''Parse error'')"
    by (simp add: markdown_to_flowables_eq [OF sheet5_styles(1-3)] lines)
  have 3: "str ''Day 1'' \<noteq> str '' Day 1''" by (simp add: str_def)
  from 1 2 3 lines(1) c3 show ?thesis by simp
qed

lemma markup_unclosed:
  "markup (str ''<b>x'') style = Some (ValueError ''Parse error'')"
  by (simp add: markup_def startswith_Cons startswith_Nil str_def)

text \<open>
  Claim C3, as amended: when \<open>buildBlocks\<close> returns, and it returns whenever \<open>Paragraph\<close>
  constructs on the text of every non-blank line, the paragraphs of the output, in
  order, come from the lines that are neither blank nor bullet lines, one from each, and
  every line that starts with the two characters of the level-2 marker is such a line.
  The line gives a level-2 heading exactly when, with its trailing whitespace trimmed, it
  starts with the marker and a space, and a level-3 heading exactly when it starts with
  the three-character marker and a space (no line does both); the text of the heading is
  the remainder \<^emph>\<open>with the whitespace around it stripped\<close>. A line that has a heading
  marker with no space after it gives a paragraph in the body style whose text is the
  line. The three styles differ, so the style tells a heading from a paragraph. The claim
  as stated has the remainder itself as the text, and a heading for every heading line:
  the counterexample is a heading line with two spaces after the marker, whose remainder
  starts with a space and whose heading text does not, and a heading line on whose text
  \<open>Paragraph\<close> raises, for which no heading is emitted.
\<close>

theorem headings_exactly:
  assumes "styles ''BodyText'' = Some b" and "styles ''Heading2'' = Some p2"
    and "styles ''Heading3'' = Some p3"
  shows "(accepted init (Sheet b) (H2 p2) (H3 p3) (splitlines md) \<longrightarrow>
       (\<exists>flow. markdown_to_flowables init md styles = Inr flow)) \<and>
    (\<forall>flow. markdown_to_flowables init md styles = Inr flow \<longrightarrow>
       concat (map paras flow) =
         map (\<lambda>l. if heading2_line l then Paragraph (strip (drop 3 (rstrip l))) (H2 p2)
                  else if heading3_line l then Paragraph (strip (drop 4 (rstrip l))) (H3 p3)
                  else Paragraph (rstrip l) (Sheet b))
           (filter (\<lambda>l. \<not> blank_line l \<and> \<not> bullet_line l) (splitlines md))) \<and>
    (\<forall>l. startswith (rstrip l) (str ''##'') \<longrightarrow> \<not> blank_line l \<and> \<not> bullet_line l) \<and>
    (\<forall>l. heading2_line l \<or> heading3_line l \<longrightarrow> startswith (rstrip l) (str ''##'')) \<and>
    (\<forall>l. \<not> (heading2_line l \<and> heading3_line l)) \<and>
    H2 p2 \<noteq> H3 p3 \<and> H2 p2 \<noteq> Sheet b \<and> H3 p3 \<noteq> Sheet b"
proof -
  have r: "accepted init (Sheet b) (H2 p2) (H3 p3) (splitlines md) \<longrightarrow>
      (\<exists>flow. markdown_to_flowables init md styles = Inr flow)"
    using markdown_to_flowables_Inr [OF assms, of init md] by simp
  have p: "\<forall>flow. markdown_to_flowables init md styles = Inr flow \<longrightarrow>
      concat (map paras flow) =
        map (\<lambda>l. if heading2_line l then Paragraph (strip (drop 3 (rstrip l))) (H2 p2)
                 else if heading3_line l then Paragraph (strip (drop 4 (rstrip l))) (H3 p3)
                 else Paragraph (rstrip l) (Sheet b))
          (filter (\<lambda>l. \<not> blank_line l \<and> \<not> bullet_line l) (splitlines md))"
    using markdown_to_flowables_Inr [OF assms, of init md]
    by (simp add: paras_flow_data para_of_def [abs_def])
  have h: "\<forall>l. startswith (rstrip l) (str ''##'') \<longrightarrow> \<not> blank_line l \<and> \<not> bullet_line l"
    unfolding str_hh using hash_line(1,2) by blast
  have m: "\<forall>l. heading2_line l \<or> heading3_line l \<longrightarrow> startswith (rstrip l) (str ''##'')"
    unfolding heading2_line_def heading3_line_def str_h2 str_h3 str_hh
    by (auto simp: startswith_Cons startswith_Nil)
  have x: "\<forall>l. \<not> (heading2_line l \<and> heading3_line l)"
    using heading3_not_heading2 by blast
  have d: "H2 p2 \<noteq> H3 p3" "H2 p2 \<noteq> Sheet b" "H3 p3 \<noteq> Sheet b"
    by (simp_all add: H2_def H3_def)
  from r p h m x d show ?thesis by blast
qed

theorem headings_exactly_witness:
  "\<exists>flow. markdown_to_flowables markup (str ''## A\<newline>###  B\<newline>##C\<newline>- x'') sheet5 = Inr flow \<and>
    concat (map paras flow) =
      [Paragraph (str ''A'') (H2 3), Paragraph (str ''B'') (H3 4),
       Paragraph (str ''##C'') (Sheet 2)]"
proof -
  have lines: "splitlines (str ''## A\<newline>###  B\<newline>##C\<newline>- x'') =
      [str ''## A'', str ''###  B'', str ''##C'', str ''- x'']"
    by (simp add: split_eval)
  have l1: "\<not> blank_line (str ''## A'')" "\<not> bullet_line (str ''## A'')"
    "heading2_line (str ''## A'')" "strip (drop 3 (rstrip (str ''## A''))) = str ''A''"
    by (simp_all add: line_eval)
  have l2: "\<not> blank_line (str ''###  B'')" "\<not> bullet_line (str ''###  B'')"
    "\<not> heading2_line (str ''###  B'')" "heading3_line (str ''###  B'')"
    "strip (drop 4 (rstrip (str ''###  B''))) = str ''B''"
    by (simp_all add: line_eval)
  have l3: "\<not> blank_line (str ''##C'')" "\<not> bullet_line (str ''##C'')"
    "\<not> heading2_line (str ''##C'')" "\<not> heading3_line (str ''##C'')"
    "rstrip (str ''##C'') = str ''##C''"
    by (simp_all add: line_eval)
  have l4: "bullet_line (str ''- x'')" "\<not> blank_line (str ''- x'')"
    by (simp_all add: line_eval)
  have t: "para_text (str ''## A'') = str ''A''" "para_text (str ''###  B'') = str ''B''"
    "para_text (str ''##C'') = str ''##C''" "para_text (str ''- x'') = str ''x''"
    by (simp_all add: line_eval)
  have m: "markup (str ''A'') s = None" "markup (str ''B'') s = None"
    "markup (str ''##C'') s = None" "markup (str ''x'') s = None" for s :: "nat para_style"
    by (rule markup_plain, simp add: str_def)+
  have a: "accepted markup (Sheet (2::nat)) (H2 3) (H3 4)
      (splitlines (str ''## A\<newline>###  B\<newline>##C\<newline>- x''))"
    unfolding lines accepted_def by (simp add: t m)
  from headings_exactly [OF sheet5_styles(1-3), of markup
      "str ''## A\<newline>###  B\<newline>##C\<newline>- x''"] a
  obtain flow where
    f: "markdown_to_flowables markup (str ''## A\<newline>###  B\<newline>##C\<newline>- x'') sheet5 = Inr flow"
    and p: "concat (map paras flow) =
      map (\<lambda>l. if heading2_line l then Paragraph (strip (drop 3 (rstrip l))) (H2 3)
               else if heading3_line l then Paragraph (strip (drop 4 (rstrip l))) (H3 4)
               else Paragraph (rstrip l) (Sheet 2))
        (filter (\<lambda>l. \<not> blank_line l \<and> \<not> bullet_line l)
          (splitlines (str ''## A\<newline>###  B\<newline>##C\<newline>- x'')))"
    by blast
  have "concat (map paras flow) =
      [Paragraph (str ''A'') (H2 3), Paragraph (str ''B'') (H3 4),
       Paragraph (str ''##C'') (Sheet 2)]"
    unfolding p lines by (simp add: l1 l2 l3 l4)
  with f show ?thesis by blast
qed

theorem heading_text_counterexample:
  "heading2_line (str ''##  a'') \<and>
   markdown_to_flowables markup (str ''##  a'') sheet5 =
     Inr [Para (Paragraph (str ''a'') (H2 3))] \<and>
   drop 3 (rstrip (str ''##  a'')) = str '' a'' \<and> str ''a'' \<noteq> str '' a'' \<and>
   heading2_line (str ''## <b>x'') \<and>
   markdown_to_flowables markup (str ''## <b>x'') sheet5 = Inl (ValueError ''Parse error'')"
proof -
  have lines: "splitlines (str ''##  a'') = [str ''##  a'']"
    "splitlines (str ''## <b>x'') = [str ''## <b>x'']"
    by (simp_all add: split_eval)
  have l: "\<not> blank_line (str ''##  a'')" "heading2_line (str ''##  a'')"
    "strip (drop 3 (rstrip (str ''##  a''))) = str ''a''"
    "drop 3 (rstrip (str ''##  a'')) = str '' a''" "str ''a'' \<noteq> str '' a''"
    by (simp_all add: line_eval)
  have c: "para_text (str ''##  a'') = str ''a''"
    "line_style (Sheet (2::nat)) (H2 3) (H3 4) (str ''##  a'') = H2 3"
    unfolding para_text_def line_style_def by (simp_all add: l(1-3))
  have m: "markup (str ''a'') (H2 (3::nat)) = None"
    by (rule markup_plain) (simp add: str_def)
  have e: "first_error markup (Sheet (2::nat)) (H2 3) (H3 4) [str ''##  a''] = None"
    by (simp add: l(1) c m)
  have 1: "markdown_to_flowables markup (str ''##  a'') sheet5 =
      Inr [Para (Paragraph (str ''a'') (H2 3))]"
    unfolding markdown_to_flowables_eq [OF sheet5_styles(1-3)] lines e
    by (simp add: flow_data_Cons l(1-3))
  have k: "\<not> blank_line (str ''## <b>x'')" "heading2_line (str ''## <b>x'')"
    "para_text (str ''## <b>x'') = str ''<b>x''"
    by (simp_all add: line_eval)
  have "first_error markup (Sheet (2::nat)) (H2 3) (H3 4) [str ''## <b>x''] =
      Some (ValueError ''Parse error'')"
    by (simp add: k markup_unclosed)
  then have 2: "markdown_to_flowables markup (str ''## <b>x'') sheet5 =
      Inl (ValueError ''Parse error'')"
    by (simp add: markdown_to_flowables_eq [OF sheet5_styles(1-3)] lines)
  from 1 2 l(2,4,5) k(2) show ?thesis by simp
qed

text \<open>
  Claim C9, as amended: a line that is only a bullet marker (with whitespace around it or
  not) is a bullet line and its item has the empty text. When \<open>buildBlocks\<close> returns, and
  it returns whenever \<open>Paragraph\<close> constructs on the text of every non-blank line, every
  bullet line of the input gives one item, in the order of the lines, so the item is not
  dropped: the empty item is among the items of the lists. The claim as stated has no
  such input rejected: the counterexample is a marker-only line followed by a line on
  whose text \<open>Paragraph\<close> raises, an input the function rejects.
\<close>

theorem marker_only_bullet_item:
  assumes "styles ''BodyText'' = Some b" and "styles ''Heading2'' = Some p2"
    and "styles ''Heading3'' = Some p3"
    and "l \<in> set (splitlines md)"
    and "strip l = str ''-'' \<or> strip l = str ''*'' \<or> strip l = bullet_glyph"
  shows "bullet_line l \<and> strip (drop 1 (lstrip l)) = [] \<and>
    (accepted init (Sheet b) (H2 p2) (H3 p3) (splitlines md) \<longrightarrow>
       (\<exists>flow. markdown_to_flowables init md styles = Inr flow)) \<and>
    (\<forall>flow. markdown_to_flowables init md styles = Inr flow \<longrightarrow>
       concat (map items_of flow) =
         map (\<lambda>l. ListItem (Paragraph (strip (drop 1 (lstrip l))) (Sheet b)) 12)
           (filter bullet_line (splitlines md)) \<and>
       ListItem (Paragraph [] (Sheet b)) 12 \<in> set (concat (map items_of flow)))"
proof -
  let ?flow = "flow_data (Sheet b) (H2 p2) (H3 p3) (splitlines md)"
  let ?item = "\<lambda>l. ListItem (Paragraph (strip (drop 1 (lstrip l))) (Sheet b)) 12"
  note eq = markdown_to_flowables_Inr [OF assms(1-3), of init md]
  have items: "concat (map items_of ?flow) = map ?item (filter bullet_line (splitlines md))"
    by (simp add: items_flow_data item_of_def [abs_def])
  have l: "bullet_line l" "strip (drop 1 (lstrip l)) = []"
    using marker_only [OF assms(5)] by simp_all
  have "l \<in> set (filter bullet_line (splitlines md))"
    using assms(4) l(1) by simp
  then have "?item l \<in> set (map ?item (filter bullet_line (splitlines md)))"
    by (simp only: set_map) (rule imageI)
  then have "ListItem (Paragraph [] (Sheet b)) 12 \<in> set (concat (map items_of ?flow))"
    unfolding items l(2) .
  with eq items l show ?thesis by simp
qed

theorem marker_only_bullet_item_witness:
  "\<exists>flow. markdown_to_flowables markup (str ''- a\<newline>-\<newline>- c'') sheet5 = Inr flow \<and>
    concat (map items_of flow) =
      [ListItem (Paragraph (str ''a'') (Sheet 2)) 12, ListItem (Paragraph [] (Sheet 2)) 12,
       ListItem (Paragraph (str ''c'') (Sheet 2)) 12] \<and>
    ListItem (Paragraph [] (Sheet 2)) 12 \<in> set (concat (map items_of flow))"
proof -
  have lines: "splitlines (str ''- a\<newline>-\<newline>- c'') = [str ''- a'', str ''-'', str ''- c'']"
    by (simp add: split_eval)
  have m: "str ''-'' \<in> set (splitlines (str ''- a\<newline>-\<newline>- c''))"
    "strip (str ''-'') = str ''-'' \<or> strip (str ''-'') = str ''*'' \<or> strip (str ''-'') = bullet_glyph"
    unfolding lines by (simp_all add: line_eval)
  have t: "map (\<lambda>l. ListItem (Paragraph (strip (drop 1 (lstrip l))) (Sheet (2::nat))) 12)
      (filter bullet_line [str ''- a'', str ''-'', str ''- c'']) =
      [ListItem (Paragraph (str ''a'') (Sheet 2)) 12, ListItem (Paragraph [] (Sheet 2)) 12,
       ListItem (Paragraph (str ''c'') (Sheet 2)) 12]"
    by (simp add: line_eval)
  have p: "para_text (str ''- a'') = str ''a''" "para_text (str ''-'') = []"
    "para_text (str ''- c'') = str ''c''"
    by (simp_all add: line_eval)
  have k: "markup (str ''a'') s = None" "markup [] s = None" "markup (str ''c'') s = None"
    for s :: "nat para_style"
    by (rule markup_plain, simp add: str_def)+
  have a: "accepted markup (Sheet (2::nat)) (H2 3) (H3 4) (splitlines (str ''- a\<newline>-\<newline>- c''))"
    unfolding lines accepted_def by (simp add: p k)
  show ?thesis
    using marker_only_bullet_item [OF sheet5_styles(1-3) m, of markup] a unfolding lines t
    by blast
qed

theorem marker_only_counterexample:
  "splitlines (str ''-\<newline><b>x'') = [str ''-'', str ''<b>x''] \<and> strip (str ''-'') = str ''-'' \<and>
   markdown_to_flowables markup (str ''-\<newline><b>x'') sheet5 = Inl (ValueError ''Parse error'')"
proof -
  have lines: "splitlines (str ''-\<newline><b>x'') = [str ''-'', str ''<b>x'']"
    by (simp add: split_eval)
  have l: "\<not> blank_line (str ''-'')" "para_text (str ''-'') = []"
    "\<not> blank_line (str ''<b>x'')" "para_text (str ''<b>x'') = str ''<b>x''"
    "strip (str ''-'') = str ''-''"
    by (simp_all add: line_eval)
  have k: "markup [] s = None" for s :: "nat para_style"
    by (rule markup_plain) simp
  have "first_error markup (Sheet (2::nat)) (H2 3) (H3 4) [str ''-'', str ''<b>x''] =
      Some (ValueError ''Parse error'')"
    by (simp add: l k markup_unclosed)
  then have "markdown_to_flowables markup (str ''-\<newline><b>x'') sheet5 =
      Inl (ValueError ''Parse error'')"
    by (simp add: markdown_to_flowables_eq [OF sheet5_styles(1-3)] lines)
  with lines l(5) show ?thesis by simp
qed

lemma first_error_run:
  assumes "\<forall>l\<in>set run. bullet_line l"
  shows "first_error init body h2 h3 run = None \<longleftrightarrow>
    (\<forall>l\<in>set run. init (strip (drop 1 (lstrip l))) body = None)"
  using assms
proof (induction run)
  case Nil
  show ?case by simp
next
  case (Cons l run)
  then have b: "bullet_line l" by simp
  have c: "\<not> blank_line l" "para_text l = strip (drop 1 (lstrip l))"
    "line_style body h2 h3 l = body"
    using bullet_call [OF b] by simp_all
  from Cons have i: "first_error init body h2 h3 run = None \<longleftrightarrow>
      (\<forall>l\<in>set run. init (strip (drop 1 (lstrip l))) body = None)"
    by simp
  show ?case
    by (cases "init (strip (drop 1 (lstrip l))) body") (simp_all add: c i)
qed

lemma appended_appended: "appended xs (appended ys r) = appended (xs @ ys) r"
  by (cases r) (simp_all add: appended_simps)

lemma flow_loop_run:
  assumes "run \<noteq> []" and "\<forall>l\<in>set run. bullet_line l"
    and "rest = [] \<or> \<not> bullet_line (hd rest)"
    and "\<forall>l\<in>set run. init (strip (drop 1 (lstrip l))) body = None"
  shows "flow_loop init body h2 h3 (run @ rest) =
    appended [list_of body run, Spacer 1 4] (flow_loop init body h2 h3 rest)"
proof -
  have e: "first_error init body h2 h3 run = None"
    using assms(4) by (rule first_error_run [OF assms(2), THEN iffD2])
  show ?thesis
    unfolding flow_loop_eq first_error_append e flow_data_run [OF assms(1-3)]
    by (cases "first_error init body h2 h3 rest") (simp_all add: appended_simps)
qed

lemma flow_loop_run_raises:
  assumes "\<forall>l\<in>set run. bullet_line l"
    and "\<exists>l\<in>set run. init (strip (drop 1 (lstrip l))) body \<noteq> None"
  shows "\<exists>e l. l \<in> set run \<and> init (strip (drop 1 (lstrip l))) body = Some e \<and>
    flow_loop init body h2 h3 (run @ rest) = Inl e"
proof -
  have "first_error init body h2 h3 run \<noteq> None"
  proof
    assume "first_error init body h2 h3 run = None"
    then have "\<forall>l\<in>set run. init (strip (drop 1 (lstrip l))) body = None"
      by (rule first_error_run [OF assms(1), THEN iffD1])
    with assms(2) show False by simp
  qed
  then obtain e where e: "first_error init body h2 h3 run = Some e" by auto
  from first_error_Some [OF e] obtain l where
    l: "l \<in> set run" "init (para_text l) (line_style body h2 h3 l) = Some e"
    by blast
  from l(1) assms(1) have b: "bullet_line l" by simp
  from l(2) have "init (strip (drop 1 (lstrip l))) body = Some e"
    unfolding bullet_call(1) [OF b] bullet_call(2) [OF b] .
  moreover have "flow_loop init body h2 h3 (run @ rest) = Inl e"
    unfolding flow_loop_eq first_error_append e by simp
  ultimately show ?thesis using l(1) by blast
qed

text \<open>
  Claim C2, as amended: when the outer loop is at a bullet line, the lines from there on
  are a maximal run of bullet lines \<open>run\<close> (all of them left-trim to a bullet marker, and
  \<open>rest\<close> is empty or starts with a line that does not) followed by \<open>rest\<close>. The text of
  an item is the left-trimmed line without its first character, trimmed on both sides.
  \<^emph>\<open>If \<open>Paragraph\<close> constructs on the text of every item of the run\<close>, the loop appends one
  \<open>ListFlowable\<close> with one item for each line of the run, in order, then one spacer, and
  it goes on at the first line of \<open>rest\<close>, which it has not consumed; hence two runs with
  a blank line between them give two lists, with the spacer of the first list and the
  spacer of the blank line between them. If \<open>Paragraph\<close> raises on the text of an item,
  the function fails with that exception and no list is emitted. The claim as stated has
  a list for every run: the counterexample is a run of one bullet line on whose item
  text \<open>Paragraph\<close> raises.
\<close>

theorem bullet_run_one_list:
  assumes "run \<noteq> []" and "\<forall>l\<in>set run. bullet_line l"
    and "rest = [] \<or> \<not> bullet_line (hd rest)"
  shows "((\<forall>l\<in>set run. init (strip (drop 1 (lstrip l))) body = None) \<longrightarrow>
       flow_loop init body h2 h3 (run @ rest) =
         appended
           [ListFlowable
              (map (\<lambda>l. ListItem (Paragraph (strip (drop 1 (lstrip l))) body) 12) run)
              ''bullet'' bullet_glyph 6,
            Spacer 1 4]
           (flow_loop init body h2 h3 rest)) \<and>
    ((\<exists>l\<in>set run. init (strip (drop 1 (lstrip l))) body \<noteq> None) \<longrightarrow>
       (\<exists>e l. l \<in> set run \<and> init (strip (drop 1 (lstrip l))) body = Some e \<and>
          flow_loop init body h2 h3 (run @ rest) = Inl e)) \<and>
    (\<forall>run' blank. run' \<noteq> [] \<and> (\<forall>l\<in>set run'. bullet_line l) \<and> blank_line blank \<and>
         (\<forall>l\<in>set (run' @ run). init (strip (drop 1 (lstrip l))) body = None) \<longrightarrow>
       flow_loop init body h2 h3 (run' @ blank # run @ rest) =
         appended
           [list_of body run', Spacer 1 4, Spacer 1 6, list_of body run, Spacer 1 4]
           (flow_loop init body h2 h3 rest))"
proof (intro conjI impI allI)
  assume a: "\<forall>l\<in>set run. init (strip (drop 1 (lstrip l))) body = None"
  have "list_of body run =
      ListFlowable (map (\<lambda>l. ListItem (Paragraph (strip (drop 1 (lstrip l))) body) 12) run)
        ''bullet'' bullet_glyph 6"
    by (simp add: list_of_def item_of_def [abs_def])
  then show "flow_loop init body h2 h3 (run @ rest) =
      appended
        [ListFlowable
           (map (\<lambda>l. ListItem (Paragraph (strip (drop 1 (lstrip l))) body) 12) run)
           ''bullet'' bullet_glyph 6,
         Spacer 1 4]
        (flow_loop init body h2 h3 rest)"
    using flow_loop_run [where init = init and body = body, OF assms a] by simp
next
  assume "\<exists>l\<in>set run. init (strip (drop 1 (lstrip l))) body \<noteq> None"
  then show "\<exists>e l. l \<in> set run \<and> init (strip (drop 1 (lstrip l))) body = Some e \<and>
      flow_loop init body h2 h3 (run @ rest) = Inl e"
    by (rule flow_loop_run_raises [OF assms(2)])
next
  fix run' blank
  assume a: "run' \<noteq> [] \<and> (\<forall>l\<in>set run'. bullet_line l) \<and> blank_line blank \<and>
    (\<forall>l\<in>set (run' @ run). init (strip (drop 1 (lstrip l))) body = None)"
  then have nb: "\<not> bullet_line blank" using bullet_line_not_blank by blast
  from a have i: "\<forall>l\<in>set run'. init (strip (drop 1 (lstrip l))) body = None"
    "\<forall>l\<in>set run. init (strip (drop 1 (lstrip l))) body = None"
    by simp_all
  have "flow_loop init body h2 h3 (run' @ blank # run @ rest) =
      appended [list_of body run', Spacer 1 4] (flow_loop init body h2 h3 (blank # run @ rest))"
    using a nb i(1) by (intro flow_loop_run) simp_all
  also have "flow_loop init body h2 h3 (blank # run @ rest) =
      appended [Spacer 1 6] (flow_loop init body h2 h3 (run @ rest))"
    using a by (simp add: flow_loop_Cons)
  also have "flow_loop init body h2 h3 (run @ rest) =
      appended [list_of body run, Spacer 1 4] (flow_loop init body h2 h3 rest)"
    by (rule flow_loop_run [where init = init and body = body, OF assms i(2)])
  finally show "flow_loop init body h2 h3 (run' @ blank # run @ rest) =
      appended [list_of body run', Spacer 1 4, Spacer 1 6, list_of body run, Spacer 1 4]
        (flow_loop init body h2 h3 rest)"
    by (simp add: appended_appended)
qed

theorem bullet_run_one_list_witness:
  "markdown_to_flowables markup (str ''- a\<newline>  * b\<newline>\<newline>- c'') sheet5 =
    Inr [ListFlowable
           [ListItem (Paragraph (str ''a'') (Sheet 2)) 12,
            ListItem (Paragraph (str ''b'') (Sheet 2)) 12] ''bullet'' bullet_glyph 6,
         Spacer 1 4, Spacer 1 6,
         ListFlowable [ListItem (Paragraph (str ''c'') (Sheet 2)) 12] ''bullet'' bullet_glyph 6,
         Spacer 1 4]"
proof -
  have lines: "splitlines (str ''- a\<newline>  * b\<newline>\<newline>- c'') =
      [str ''- a'', str ''  * b'', [], str ''- c'']"
    by (simp add: split_eval)
  have b: "bullet_line (str ''- a'')" "bullet_line (str ''  * b'')" "bullet_line (str ''- c'')"
    "blank_line []"
    by (simp_all add: line_eval)
  have t: "strip (drop 1 (lstrip (str ''- a''))) = str ''a''"
    "strip (drop 1 (lstrip (str ''  * b''))) = str ''b''"
    "strip (drop 1 (lstrip (str ''- c''))) = str ''c''"
    by (simp_all add: line_eval)
  have k: "markup (str ''a'') s = None" "markup (str ''b'') s = None"
    "markup (str ''c'') s = None" for s :: "nat para_style"
    by (rule markup_plain, simp add: str_def)+
  have h: "[str ''- c''] \<noteq> []" "\<forall>l\<in>set [str ''- c'']. bullet_line l"
    "[] = [] \<or> \<not> bullet_line (hd [])"
    using b by simp_all
  have "flow_loop markup (Sheet 2) (H2 3) (H3 4)
        ([str ''- a'', str ''  * b''] @ [] # [str ''- c''] @ []) =
      appended
        [list_of (Sheet 2) [str ''- a'', str ''  * b''], Spacer 1 4, Spacer 1 6,
         list_of (Sheet 2) [str ''- c''], Spacer 1 4]
        (flow_loop markup (Sheet (2::nat)) (H2 3) (H3 4) [])"
    using bullet_run_one_list [OF h, of markup "Sheet (2::nat)" "H2 3" "H3 4",
        THEN conjunct2, THEN conjunct2, rule_format, of "[str ''- a'', str ''  * b'']" "[]"] b
    by (simp add: t k del: One_nat_def)
  then show ?thesis
    by (simp add: markdown_to_flowables_def sheet5_def lines list_of_def item_of_def t
        appended_simps del: One_nat_def)
qed

theorem bullet_run_counterexample:
  "splitlines (str ''- <b>x'') = [str ''- <b>x''] \<and> bullet_line (str ''- <b>x'') \<and>
   markdown_to_flowables markup (str ''- <b>x'') sheet5 = Inl (ValueError ''Parse error'')"
proof -
  have lines: "splitlines (str ''- <b>x'') = [str ''- <b>x'']"
    by (simp add: split_eval)
  have l: "\<not> blank_line (str ''- <b>x'')" "bullet_line (str ''- <b>x'')"
    "para_text (str ''- <b>x'') = str ''<b>x''"
    by (simp_all add: line_eval)
  have "first_error markup (Sheet (2::nat)) (H2 3) (H3 4) [str ''- <b>x''] =
      Some (ValueError ''Parse error'')"
    by (simp add: l markup_unclosed)
  then have "markdown_to_flowables markup (str ''- <b>x'') sheet5 =
      Inl (ValueError ''Parse error'')"
    by (simp add: markdown_to_flowables_eq [OF sheet5_styles(1-3)] lines)
  with lines l(2) show ?thesis by simp
qed

text \<open>
  Claim C10, as amended: a line of the input whose first character is whitespace is never
  a heading line, whatever follows the whitespace, so no heading comes from it. When
  \<open>buildBlocks\<close> returns, and it returns whenever \<open>Paragraph\<close> constructs on the text of
  every non-blank line, the paragraphs of the output come from the lines that are neither
  blank nor bullet lines, the list items from the bullet lines and the spacers of height
  6 from the blank lines, one from each. \<^emph>\<open>If the line is blank it gives a spacer\<close>; if it
  left-trims to a bullet marker its item is among the list items of the output; and
  otherwise the output has the paragraph in the body style whose text is the line without
  its trailing whitespace. Bullet markers are thus recognised after left-trimming,
  heading markers only in the first column. The claim as stated has a list item or a
  paragraph for every such line: the counterexample is the line of one space, which
  gives a spacer, and an indented line on whose text \<open>Paragraph\<close> raises, which gives
  nothing.
\<close>

theorem indented_line:
  assumes "styles ''BodyText'' = Some b" and "styles ''Heading2'' = Some p2"
    and "styles ''Heading3'' = Some p3"
    and "l \<in> set (splitlines md)" and "l \<noteq> []" and "is_space (hd l)"
  shows "\<not> heading2_line l \<and> \<not> heading3_line l \<and> (blank_line l \<longrightarrow> \<not> bullet_line l) \<and>
    (accepted init (Sheet b) (H2 p2) (H3 p3) (splitlines md) \<longrightarrow>
       (\<exists>flow. markdown_to_flowables init md styles = Inr flow)) \<and>
    (\<forall>flow. markdown_to_flowables init md styles = Inr flow \<longrightarrow>
       concat (map paras flow) =
         map (\<lambda>l. if heading2_line l then Paragraph (strip (drop 3 (rstrip l))) (H2 p2)
                  else if heading3_line l then Paragraph (strip (drop 4 (rstrip l))) (H3 p3)
                  else Paragraph (rstrip l) (Sheet b))
           (filter (\<lambda>l. \<not> blank_line l \<and> \<not> bullet_line l) (splitlines md)) \<and>
       concat (map items_of flow) =
         map (\<lambda>l. ListItem (Paragraph (strip (drop 1 (lstrip l))) (Sheet b)) 12)
           (filter bullet_line (splitlines md)) \<and>
       length (filter (\<lambda>f. f = Spacer 1 6) flow) = length (filter blank_line (splitlines md)) \<and>
       (if blank_line l then Spacer 1 6 \<in> set flow
        else if bullet_line l
        then ListItem (Paragraph (strip (drop 1 (lstrip l))) (Sheet b)) 12
               \<in> set (concat (map items_of flow))
        else Para (Paragraph (rstrip l) (Sheet b)) \<in> set flow))"
proof -
  let ?flow = "flow_data (Sheet b) (H2 p2) (H3 p3) (splitlines md)"
  let ?item = "\<lambda>l. ListItem (Paragraph (strip (drop 1 (lstrip l))) (Sheet b)) 12"
  let ?para = "\<lambda>l. if heading2_line l then Paragraph (strip (drop 3 (rstrip l))) (H2 p2)
               else if heading3_line l then Paragraph (strip (drop 4 (rstrip l))) (H3 p3)
               else Paragraph (rstrip l) (Sheet b)"
  note eq = markdown_to_flowables_Inr [OF assms(1-3), of init md]
  have nh: "\<not> heading2_line l" "\<not> heading3_line l"
    using indented_not_heading [OF assms(5,6)] by simp_all
  have bb: "blank_line l \<longrightarrow> \<not> bullet_line l"
    using bullet_line_not_blank by blast
  have p: "concat (map paras ?flow) =
      map ?para (filter (\<lambda>l. \<not> blank_line l \<and> \<not> bullet_line l) (splitlines md))"
    by (simp add: paras_flow_data para_of_def [abs_def])
  have i: "concat (map items_of ?flow) = map ?item (filter bullet_line (splitlines md))"
    by (simp add: items_flow_data item_of_def [abs_def])
  have s: "length (filter (\<lambda>f. f = Spacer 1 6) ?flow) =
      length (filter blank_line (splitlines md))"
    by (rule spacers_flow_data)
  have e: "if blank_line l then Spacer 1 6 \<in> set ?flow
      else if bullet_line l then ?item l \<in> set (concat (map items_of ?flow))
      else Para (Paragraph (rstrip l) (Sheet b)) \<in> set ?flow"
  proof (cases "blank_line l")
    case True
    with blank_spacer [OF assms(4) True, of "Sheet b" "H2 p2" "H3 p3"] show ?thesis by simp
  next
    case nb: False
    show ?thesis
    proof (cases "bullet_line l")
      case True
      then have "l \<in> set (filter bullet_line (splitlines md))"
        using assms(4) by simp
      then have "?item l \<in> set (map ?item (filter bullet_line (splitlines md)))"
        by (simp only: set_map) (rule imageI)
      with True nb i show ?thesis by simp
    next
      case False
      then have "l \<in> set (filter (\<lambda>l. \<not> blank_line l \<and> \<not> bullet_line l) (splitlines md))"
        using assms(4) nb by simp
      then have "?para l \<in> set (map ?para
          (filter (\<lambda>l. \<not> blank_line l \<and> \<not> bullet_line l) (splitlines md)))"
        by (simp only: set_map) (rule imageI)
      then have "Paragraph (rstrip l) (Sheet b) \<in> set (concat (map paras ?flow))"
        unfolding p using nh by simp
      then have "Para (Paragraph (rstrip l) (Sheet b)) \<in> set ?flow"
        by (simp only: in_paras)
      with False nb show ?thesis by simp
    qed
  qed
  have r: "accepted init (Sheet b) (H2 p2) (H3 p3) (splitlines md) \<longrightarrow>
      (\<exists>flow. markdown_to_flowables init md styles = Inr flow)"
    using eq by simp
  have u: "\<forall>flow. markdown_to_flowables init md styles = Inr flow \<longrightarrow>
      concat (map paras flow) =
        map ?para (filter (\<lambda>l. \<not> blank_line l \<and> \<not> bullet_line l) (splitlines md)) \<and>
      concat (map items_of flow) = map ?item (filter bullet_line (splitlines md)) \<and>
      length (filter (\<lambda>f. f = Spacer 1 6) flow) = length (filter blank_line (splitlines md)) \<and>
      (if blank_line l then Spacer 1 6 \<in> set flow
       else if bullet_line l then ?item l \<in> set (concat (map items_of flow))
       else Para (Paragraph (rstrip l) (Sheet b)) \<in> set flow)"
  proof (intro allI impI)
    fix flow
    assume m: "markdown_to_flowables init md styles = Inr flow"
    from eq [THEN iffD1, OF m] have f: "flow = ?flow" by simp
    show "concat (map paras flow) =
        map ?para (filter (\<lambda>l. \<not> blank_line l \<and> \<not> bullet_line l) (splitlines md)) \<and>
      concat (map items_of flow) = map ?item (filter bullet_line (splitlines md)) \<and>
      length (filter (\<lambda>f. f = Spacer 1 6) flow) = length (filter blank_line (splitlines md)) \<and>
      (if blank_line l then Spacer 1 6 \<in> set flow
       else if bullet_line l then ?item l \<in> set (concat (map items_of flow))
       else Para (Paragraph (rstrip l) (Sheet b)) \<in> set flow)"
      unfolding f by (intro conjI p i s e)
  qed
  from nh bb r u show ?thesis by (intro conjI)
qed

theorem indented_line_witness:
  "\<exists>flow. markdown_to_flowables markup (str ''  ## x\<newline> '') sheet5 = Inr flow \<and>
     Para (Paragraph (str ''  ## x'') (Sheet 2)) \<in> set flow \<and> Spacer 1 6 \<in> set flow"
proof -
  have lines: "splitlines (str ''  ## x\<newline> '') = [str ''  ## x'', str '' '']"
    by (simp add: split_eval)
  have l: "str ''  ## x'' \<in> set (splitlines (str ''  ## x\<newline> ''))" "str ''  ## x'' \<noteq> []"
    "is_space (hd (str ''  ## x''))"
    unfolding lines by (simp_all add: line_eval)
  have l': "str '' '' \<in> set (splitlines (str ''  ## x\<newline> ''))" "str '' '' \<noteq> []"
    "is_space (hd (str '' ''))"
    unfolding lines by (simp_all add: line_eval)
  have n: "\<not> blank_line (str ''  ## x'')" "\<not> bullet_line (str ''  ## x'')"
    "rstrip (str ''  ## x'') = str ''  ## x''" "para_text (str ''  ## x'') = str ''  ## x''"
    "blank_line (str '' '')"
    by (simp_all add: line_eval)
  have k: "markup (str ''  ## x'') s = None" for s :: "nat para_style"
    by (rule markup_plain) (simp add: str_def)
  have a: "accepted markup (Sheet (2::nat)) (H2 3) (H3 4) (splitlines (str ''  ## x\<newline> ''))"
    unfolding lines accepted_def by (simp add: n k)
  from indented_line [OF sheet5_styles(1-3) l, of markup] a obtain flow where
    f: "markdown_to_flowables markup (str ''  ## x\<newline> '') sheet5 = Inr flow"
    by blast
  from indented_line [OF sheet5_styles(1-3) l, of markup] f n(1,2)
  have 1: "Para (Paragraph (rstrip (str ''  ## x'')) (Sheet 2)) \<in> set flow"
    by simp
  from indented_line [OF sheet5_styles(1-3) l', of markup] f n(5)
  have 2: "Spacer 1 6 \<in> set flow"
    by simp
  from f 1 2 show ?thesis unfolding n(3) by blast
qed

theorem blank_indented_counterexample:
  "splitlines (str '' '') = [str '' ''] \<and> is_space (hd (str '' '')) \<and>
   markdown_to_flowables markup (str '' '') sheet5 = Inr [Spacer 1 6] \<and>
   splitlines (str '' <b>x'') = [str '' <b>x''] \<and> is_space (hd (str '' <b>x'')) \<and>
   markdown_to_flowables markup (str '' <b>x'') sheet5 = Inl (ValueError ''Parse error'')"
proof -
  have lines: "splitlines (str '' '') = [str '' '']"
    "splitlines (str '' <b>x'') = [str '' <b>x'']"
    by (simp_all add: split_eval)
  have l: "is_space (hd (str '' ''))" "blank_line (str '' '')"
    "is_space (hd (str '' <b>x''))"
    by (simp_all add: line_eval)
  have e: "first_error markup (Sheet (2::nat)) (H2 3) (H3 4) [str '' ''] = None"
    by (simp add: l)
  have 1: "markdown_to_flowables markup (str '' '') sheet5 = Inr [Spacer 1 6]"
    unfolding markdown_to_flowables_eq [OF sheet5_styles(1-3)] lines e
    by (simp add: flow_data_Cons l)
  have k: "\<not> blank_line (str '' <b>x'')" "para_text (str '' <b>x'') = str '' <b>x''"
    by (simp_all add: line_eval)
  have r: "markup (str '' <b>x'') s = Some (ValueError ''Parse error'')"
    for s :: "nat para_style"
    by (simp add: markup_def startswith_Cons startswith_Nil str_def)
  have "first_error markup (Sheet (2::nat)) (H2 3) (H3 4) [str '' <b>x''] =
      Some (ValueError ''Parse error'')"
    by (simp add: k r)
  then have 2: "markdown_to_flowables markup (str '' <b>x'') sheet5 =
      Inl (ValueError ''Parse error'')"
    by (simp add: markdown_to_flowables_eq [OF sheet5_styles(1-3)] lines)
  from 1 2 lines l(1,3) show ?thesis by simp
qed

lemma write_pdf_before_build:
  assumes "markdown_to_flowables init md styles = Inl x"
  shows "\<exists>e. write_pdf build init styles now md filename fs = (Inl e, fs)"
  using assms by (simp add: write_pdf_def Let_def split: option.splits)

lemma write_pdf_build:
  assumes "styles ''Title'' = Some title" and "styles ''Normal'' = Some normal"
    and "init (str ''Travel Plan'')
      (ParagraphStyle ''Header'' title [(''fontSize'', 18), (''spaceAfter'', 12)]) = None"
    and "init (str ''Generated: '' @ now) (Sheet normal) = None"
    and "markdown_to_flowables init md styles = Inr flow"
  shows "write_pdf build init styles now md filename fs =
    (case build (SimpleDocTemplate filename)
        (Para (Paragraph (str ''Travel Plan'')
           (ParagraphStyle ''Header'' title [(''fontSize'', 18), (''spaceAfter'', 12)])) #
         Para (Paragraph (str ''Generated: '' @ now) (Sheet normal)) #
         Spacer 1 10 # flow) fs of
       (Some e, fs') \<Rightarrow> (Inl e, fs')
     | (None, fs') \<Rightarrow> (Inr filename, fs'))"
  using assms by (simp add: write_pdf_def Let_def)


text \<open>
  Claim C8: in the claim, \<open>render\<close> is \<open>write_pdf\<close> from the point where it has the blocks,
  and the rendered document is what \<open>doc.build\<close> makes of the story it is given. For
  every sequence of blocks \<open>flow\<close> that \<open>buildBlocks\<close> returns, the empty one and one of
  spacers only included, the story given to \<open>doc.build\<close> is the paragraph of the fixed
  title "Travel Plan" in the header style, then the paragraph "Generated: " with the time
  of the call, then a spacer, and only then the blocks; and whenever \<open>write_pdf\<close> returns
  the file name, \<open>doc.build\<close> has returned on this story. The hypotheses are that the
  sheet has the two styles of the header, as ReportLab's sample sheet has, and that
  \<open>Paragraph\<close> constructs on the two texts of the header.
\<close>

theorem story_begins_with_header:
  assumes "styles ''Title'' = Some title" and "styles ''Normal'' = Some normal"
    and "init (str ''Travel Plan'')
      (ParagraphStyle ''Header'' title [(''fontSize'', 18), (''spaceAfter'', 12)]) = None"
    and "init (str ''Generated: '' @ now) (Sheet normal) = None"
    and "markdown_to_flowables init md styles = Inr flow"
  shows "write_pdf build init styles now md filename fs =
      (case build (SimpleDocTemplate filename)
          (Para (Paragraph (str ''Travel Plan'')
             (ParagraphStyle ''Header'' title [(''fontSize'', 18), (''spaceAfter'', 12)])) #
           Para (Paragraph (str ''Generated: '' @ now) (Sheet normal)) #
           Spacer 1 10 # flow) fs of
         (Some e, fs') \<Rightarrow> (Inl e, fs')
       | (None, fs') \<Rightarrow> (Inr filename, fs')) \<and>
    (\<forall>name fs'. write_pdf build init styles now md filename fs = (Inr name, fs') \<longrightarrow>
       name = filename \<and>
       build (SimpleDocTemplate filename)
         (Para (Paragraph (str ''Travel Plan'')
            (ParagraphStyle ''Header'' title [(''fontSize'', 18), (''spaceAfter'', 12)])) #
          Para (Paragraph (str ''Generated: '' @ now) (Sheet normal)) #
          Spacer 1 10 # flow) fs = (None, fs'))"
  unfolding write_pdf_build [OF assms]
  by (auto split: prod.splits option.splits)

theorem story_begins_with_header_witness:
  "fst (write_pdf complete_build markup sheet5 (str ''2025-01-01 10:00'') (str ''\<newline>\<newline>'')
      ''travel_plan.pdf'' Map.empty) = Inr ''travel_plan.pdf'' \<and>
   snd (write_pdf complete_build markup sheet5 (str ''2025-01-01 10:00'') (str ''\<newline>\<newline>'')
      ''travel_plan.pdf'' Map.empty) ''travel_plan.pdf'' =
     Some [Para (Paragraph (str ''Travel Plan'')
             (ParagraphStyle ''Header'' 0 [(''fontSize'', 18), (''spaceAfter'', 12)])),
           Para (Paragraph (str ''Generated: 2025-01-01 10:00'') (Sheet 1)),
           Spacer 1 10, Spacer 1 6, Spacer 1 6]"
proof -
  have lines: "splitlines (str ''\<newline>\<newline>'') = [[], []]"
    by (simp add: split_eval)
  have b: "blank_line []" by (simp add: line_eval)
  have e: "first_error markup (Sheet (2::nat)) (H2 3) (H3 4) [[], []] = None"
    by (simp add: b)
  have f: "markdown_to_flowables markup (str ''\<newline>\<newline>'') sheet5 = Inr [Spacer 1 6, Spacer 1 6]"
    unfolding markdown_to_flowables_eq [OF sheet5_styles(1-3)] lines e
    by (simp add: flow_data_Cons b)
  have k: "markup (str ''Travel Plan'')
      (ParagraphStyle ''Header'' (0::nat) [(''fontSize'', 18), (''spaceAfter'', 12)]) = None"
    "markup (str ''Generated: '' @ str ''2025-01-01 10:00'') (Sheet (1::nat)) = None"
    by (rule markup_plain, simp add: str_def)+
  show ?thesis
    unfolding story_begins_with_header [OF sheet5_styles(4,5) k f, THEN conjunct1]
    by (simp add: complete_build_def SimpleDocTemplate_def str_def)
qed

text \<open>
  Claim C6: in the source the style of a kind of block is an entry of ReportLab's style
  sheet, looked up by \<open>styles[...]\<close>, and the error of a missing entry is \<open>KeyError\<close>.
  The paragraphs of list items and the plain paragraphs use the entry \<open>BodyText\<close>, the
  headings the entries \<open>Heading2\<close> and \<open>Heading3\<close>. If the sheet lacks one of the three,
  \<open>markdown_to_flowables\<close> fails with the \<open>KeyError\<close> of a missing entry on every input
  (\<open>BodyText\<close>, the style of the list items, first), whether or not a block of that kind
  is in the input, so no content is skipped; and \<open>write_pdf\<close> fails and leaves the file
  system as it was, for every \<open>doc.build\<close>: nothing is written. When \<open>Paragraph\<close>
  constructs on the two texts of the header, the exception of \<open>write_pdf\<close> is the
  \<open>KeyError\<close> of a missing entry.
\<close>

theorem missing_style_fails:
  assumes "styles ''BodyText'' = None \<or> styles ''Heading2'' = None \<or> styles ''Heading3'' = None"
  shows "(\<exists>k. markdown_to_flowables init md styles = Inl (KeyError k) \<and> styles k = None) \<and>
    (styles ''BodyText'' = None \<longrightarrow>
       markdown_to_flowables init md styles = Inl (KeyError ''BodyText'')) \<and>
    (\<exists>e. write_pdf build init styles now md filename fs = (Inl e, fs)) \<and>
    ((\<forall>s. init (str ''Travel Plan'') s = None) \<and>
     (\<forall>s. init (str ''Generated: '' @ now) s = None) \<longrightarrow>
       (\<exists>k. write_pdf build init styles now md filename fs = (Inl (KeyError k), fs) \<and>
          styles k = None))"
proof -
  have m: "\<exists>k. markdown_to_flowables init md styles = Inl (KeyError k) \<and> styles k = None"
    using assms by (auto simp: markdown_to_flowables_def split: option.splits)
  have b: "styles ''BodyText'' = None \<longrightarrow>
      markdown_to_flowables init md styles = Inl (KeyError ''BodyText'')"
    by (simp add: markdown_to_flowables_def)
  from m obtain k where k: "markdown_to_flowables init md styles = Inl (KeyError k)"
    "styles k = None"
    by blast
  have w: "\<exists>e. write_pdf build init styles now md filename fs = (Inl e, fs)"
    using k(1) by (rule write_pdf_before_build)
  have x: "\<exists>k. write_pdf build init styles now md filename fs = (Inl (KeyError k), fs) \<and>
      styles k = None"
    if "\<forall>s. init (str ''Travel Plan'') s = None"
      and "\<forall>s. init (str ''Generated: '' @ now) s = None"
  proof (cases "styles ''Title''")
    case None
    then show ?thesis by (auto simp: write_pdf_def)
  next
    case t: (Some title)
    show ?thesis
    proof (cases "styles ''Normal''")
      case None
      with t that show ?thesis by (auto simp: write_pdf_def Let_def)
    next
      case (Some normal)
      with t that k show ?thesis by (auto simp: write_pdf_def Let_def)
    qed
  qed
  from m b w x show ?thesis by blast
qed

theorem missing_style_fails_witness:
  "markdown_to_flowables markup (str ''- a'') (sheet5(''BodyText'' := None)) =
     Inl (KeyError ''BodyText'') \<and>
   (\<exists>k. write_pdf complete_build markup (sheet5(''BodyText'' := None)) (str ''2025-01-01 10:00'')
      (str ''- a'') ''travel_plan.pdf'' Map.empty = (Inl (KeyError k), Map.empty) \<and>
      (sheet5(''BodyText'' := None)) k = None)"
proof -
  have a: "(sheet5(''BodyText'' := None)) ''BodyText'' = None \<or>
      (sheet5(''BodyText'' := None)) ''Heading2'' = None \<or>
      (sheet5(''BodyText'' := None)) ''Heading3'' = None"
    by simp
  have n: "(sheet5(''BodyText'' := None)) ''BodyText'' = None" by simp
  have k: "\<forall>s. markup (str ''Travel Plan'') (s :: nat para_style) = None"
    "\<forall>s. markup (str ''Generated: '' @ str ''2025-01-01 10:00'') (s :: nat para_style) = None"
    by (intro allI, rule markup_plain, simp add: str_def)+
  from missing_style_fails [OF a, of markup "str ''- a''" complete_build
      "str ''2025-01-01 10:00''" "''travel_plan.pdf''" Map.empty] n k
  show ?thesis by blast
qed





end
